theory Spec2Isabelle
  imports Main "HOL-Library.Multiset" "HOL-Library.Char_ord" "HOL-Library.List_Lexorder"
begin

section \<open>Data model\<close>

text \<open>
  The catalogue of \<^verbatim>\<open>src/index.ts\<close>: interfaces \<^verbatim>\<open>Parameter\<close>, \<^verbatim>\<open>Definition\<close> and
  \<^verbatim>\<open>FilterOptions\<close>. An optional field is an \<open>option\<close>; a JavaScript number that
  holds a line, a count or a complexity is an \<open>int\<close>. The fields \<^verbatim>\<open>id\<close>, \<^verbatim>\<open>type\<close> and
  \<^verbatim>\<open>value\<close> are called \<open>def_id\<close>, \<open>def_type\<close> and \<open>def_value\<close>, since the short
  names are taken in Isabelle.
\<close>

record Parameter =
  param_name :: string
  param_type :: "string option"

record Definition =
  def_id :: "string option"
  def_type :: string
  name :: string
  startLine :: int
  endLine :: int
  modifier :: "string option"
  dataType :: "string option"
  def_value :: "string option"
  parentId :: "string option"
  children :: "string list option"
  parameters :: "Parameter list option"
  returnType :: "string option"
  complexity :: "int option"
  parameterCount :: "int option"
  loc :: "int option"
  calls :: "string list option"

record FilterOptions =
  includeTypes :: "string list option"
  excludeTypes :: "string list option"
  includeModifiers :: "string list option"
  excludeModifiers :: "string list option"
  namePattern :: "string option"
  excludeNamePattern :: "string option"
  maxComplexity :: "int option"
  minComplexity :: "int option"
  maxParameters :: "int option"
  minParameters :: "int option"

text \<open>
  JavaScript truthiness of an optional string: \<^verbatim>\<open>undefined\<close> and the empty string are
  falsy, every other string is truthy.
\<close>

definition truthy :: "string option \<Rightarrow> bool" where
  "truthy s = (case s of None \<Rightarrow> False | Some t \<Rightarrow> t \<noteq> [])"

section \<open>Syntax trees\<close>

text \<open>
  A node of the parser's syntax tree, as far as the program reads it: its \<^verbatim>\<open>type\<close>,
  the field name under which it hangs in its parent (read by \<^verbatim>\<open>childForFieldName\<close>),
  its source \<^verbatim>\<open>text\<close>, its start and end position (row, column) and its children.
\<close>

datatype SyntaxNode = SyntaxNode
  (node_type: string)
  (node_field: "string option")
  (node_text: string)
  (startPosition: "nat \<times> nat")
  (endPosition: "nat \<times> nat")
  (node_children: "SyntaxNode list")

definition childForFieldName :: "SyntaxNode \<Rightarrow> string \<Rightarrow> SyntaxNode option" where
  "childForFieldName n f = find (\<lambda>c. node_field c = Some f) (node_children n)"

section \<open>Cyclomatic complexity\<close>

definition decisionPointTypes :: "string list" where
  "decisionPointTypes =
     [''if_statement'', ''while_statement'', ''for_statement'', ''for_in_statement'',
      ''switch_case'', ''case_statement'', ''switch_default'',
      ''conditional_expression'',
      ''binary_expression'',
      ''boolean_operator'',
      ''catch_clause'',
      ''foreach_statement'',
      ''case_clause'']"

text \<open>
  The body of \<^verbatim>\<open>traverse\<close> before it recurses: the new value of the counter
  \<^verbatim>\<open>complexity\<close> after the node itself has been looked at.
\<close>

definition visit :: "SyntaxNode \<Rightarrow> int \<Rightarrow> int" where
  "visit currentNode cplx =
     (if node_type currentNode \<in> set decisionPointTypes then
        (if node_type currentNode = ''binary_expression''
            \<or> node_type currentNode = ''boolean_operator'' then
           (let operator = map_option node_text (childForFieldName currentNode ''operator'')
            in if operator = Some ''&&'' \<or> operator = Some ''||''
                  \<or> operator = Some ''and'' \<or> operator = Some ''or''
               then cplx + 1 else cplx)
         else cplx + 1)
      else cplx)"

text \<open>
  \<^verbatim>\<open>traverse\<close> threads the counter through the node and then, in order, through the
  children.
\<close>

fun traverse :: "SyntaxNode \<Rightarrow> int \<Rightarrow> int" where
  "traverse (SyntaxNode ty fl tx sp ep cs) cplx =
     fold traverse cs (visit (SyntaxNode ty fl tx sp ep cs) cplx)"

definition calculateComplexity :: "SyntaxNode option \<Rightarrow> int" where
  "calculateComplexity node =
     (case node of None \<Rightarrow> 1 | Some n \<Rightarrow> traverse n 1)"

text \<open>All nodes of a subtree, the node itself first.\<close>

fun subtree :: "SyntaxNode \<Rightarrow> SyntaxNode list" where
  "subtree (SyntaxNode ty fl tx sp ep cs) =
     SyntaxNode ty fl tx sp ep cs # concat (map subtree cs)"

text \<open>
  The nodes at which \<^verbatim>\<open>traverse\<close> increments the counter, read off its two tests: the type
  is in \<^verbatim>\<open>decisionPointTypes\<close>, and a binary expression or boolean operator has one of the
  four logical operators under its field \<^verbatim>\<open>operator\<close>.
\<close>

definition logicalOperators :: "string list" where
  "logicalOperators = [''&&'', ''||'', ''and'', ''or'']"

definition counted :: "SyntaxNode \<Rightarrow> bool" where
  "counted n =
     (node_type n \<in> set decisionPointTypes
      \<and> (node_type n = ''binary_expression'' \<or> node_type n = ''boolean_operator''
           \<longrightarrow> (case childForFieldName n ''operator'' of
                  None \<Rightarrow> False
                | Some opn \<Rightarrow> node_text opn \<in> set logicalOperators)))"

text \<open>
  The decision points in the specification's words: a conditional, a loop, a switch arm,
  a ternary and a catch clause count once each, a binary expression or boolean operator
  counts exactly when its operator is \<^verbatim>\<open>&&\<close>, \<^verbatim>\<open>||\<close>, \<^verbatim>\<open>and\<close> or \<^verbatim>\<open>or\<close>. The node types are
  those that the grammars loaded by the program give to these constructs: in the
  JavaScript and TypeScript grammars a ternary is a \<^verbatim>\<open>ternary_expression\<close> and a
  \<^verbatim>\<open>do\<close> loop a \<^verbatim>\<open>do_statement\<close>; in the Python grammar an \<^verbatim>\<open>elif\<close> branch is an
  \<^verbatim>\<open>elif_clause\<close>, a conditional expression a \<^verbatim>\<open>conditional_expression\<close> and an
  \<^verbatim>\<open>except\<close> branch an \<^verbatim>\<open>except_clause\<close>.
\<close>

datatype Construct = Conditional | Loop | SwitchArm | Ternary | CatchClause

definition constructOf :: "string \<Rightarrow> Construct option" where
  "constructOf ty =
     (if ty \<in> set [''if_statement'', ''elif_clause''] then Some Conditional
      else if ty \<in> set [''while_statement'', ''for_statement'', ''for_in_statement'',
                         ''do_statement'', ''foreach_statement''] then Some Loop
      else if ty \<in> set [''switch_case'', ''switch_default'', ''case_statement'',
                         ''case_clause''] then Some SwitchArm
      else if ty \<in> set [''ternary_expression'', ''conditional_expression''] then Some Ternary
      else if ty \<in> set [''catch_clause'', ''except_clause''] then Some CatchClause
      else None)"

definition spec_decision_point :: "SyntaxNode \<Rightarrow> bool" where
  "spec_decision_point n =
     (if node_type n = ''binary_expression'' \<or> node_type n = ''boolean_operator''
      then (case childForFieldName n ''operator'' of
              None \<Rightarrow> False
            | Some opn \<Rightarrow> node_text opn \<in> set logicalOperators)
      else constructOf (node_type n) \<noteq> None)"

section \<open>Strings, sets and regular expressions of the host language\<close>

text \<open>
  \<^verbatim>\<open>s.split(sep)\<close> for a separator of one character: the pieces between the
  separators, the empty string giving one empty piece.
\<close>

fun js_split :: "char \<Rightarrow> string \<Rightarrow> string list" where
  "js_split sep [] = [[]]"
| "js_split sep (c # cs) =
     (if c = sep then [] # js_split sep cs
      else (case js_split sep cs of [] \<Rightarrow> [[c]] | w # ws \<Rightarrow> (c # w) # ws))"

text \<open>\<^verbatim>\<open>xs.pop()\<close> as a value: the last element, \<^verbatim>\<open>undefined\<close> on the empty array.\<close>

definition pop :: "'a list \<Rightarrow> 'a option" where
  "pop xs = (if xs = [] then None else Some (last xs))"

text \<open>
  A \<^verbatim>\<open>Set\<close> keeps its elements in insertion order and without duplicates; it is a
  list, \<^verbatim>\<open>add\<close> appending an element that is new.
\<close>

definition set_add :: "'a \<Rightarrow> 'a list \<Rightarrow> 'a list" where
  "set_add x xs = (if x \<in> set xs then xs else xs @ [x])"

definition new_Set :: "'a list \<Rightarrow> 'a list" where
  "new_Set xs = fold set_add xs []"

text \<open>
  The regular expressions are the host language's. A compiled expression is what the
  program does with it: \<^verbatim>\<open>regex.test(s)\<close>, and \<^verbatim>\<open>s.replace(regex, '')\<close>, here \<open>erase\<close>.
  The constructor \<^verbatim>\<open>new RegExp(pattern)\<close> is a parameter \<open>newRegExp\<close> of every function
  that compiles a pattern; it returns \<open>None\<close> where the constructor throws.
\<close>

datatype RegExp = RegExp (test: "string \<Rightarrow> bool") (erase: "string \<Rightarrow> string")

section \<open>Extraction\<close>

text \<open>
  What the extractor is given by its collaborators: the path library, the parser, its
  queries and the string heuristics of the host. \<open>None\<close> stands for a call that throws.
  The tables \<^verbatim>\<open>languageMap\<close> and \<^verbatim>\<open>queries\<close> are parameters too: a query set is the list
  of its keys with their query strings, in the object's key order.
\<close>

type_synonym capture = "string \<times> SyntaxNode"

record host =
  extname :: "string \<Rightarrow> string"
  languageMap :: "string \<Rightarrow> string option"
  queries :: "string \<Rightarrow> (string \<times> string) list option"
  parse :: "string \<Rightarrow> string \<Rightarrow> SyntaxNode option"
  matches :: "string \<Rightarrow> string \<Rightarrow> SyntaxNode \<Rightarrow> capture list list option"
  captures :: "string \<Rightarrow> string \<Rightarrow> SyntaxNode \<Rightarrow> capture list option"
  isSelf :: "string \<Rightarrow> bool"
  signatureReturnType :: "string \<Rightarrow> SyntaxNode \<Rightarrow> string option"
  fallbackParameter :: "string \<Rightarrow> Parameter"
  readFile :: "string \<Rightarrow> string + string"
  resolve :: "string \<Rightarrow> string"
  relative :: "string \<Rightarrow> string \<Rightarrow> string"

text \<open>The decimal digits of a number, for \<^verbatim>\<open>`def-${idCounter++}`\<close>.\<close>

fun decimal :: "nat \<Rightarrow> string" where
  "decimal n =
     (if n < 10 then [char_of (48 + n)]
      else decimal (n div 10) @ [char_of (48 + n mod 10)])"

declare decimal.simps [simp del]

definition generateId :: "nat \<Rightarrow> string" where
  "generateId idCounter = ''def-'' @ decimal idCounter"

text \<open>\<^verbatim>\<open>match.captures.find(c => c.name === n)?.node\<close>\<close>

definition captureNode :: "capture list \<Rightarrow> string \<Rightarrow> SyntaxNode option" where
  "captureNode cs n = map_option snd (find (\<lambda>c. fst c = n) cs)"

text \<open>
  The loop over \<^verbatim>\<open>paramCaptures\<close>: the state is \<^verbatim>\<open>paramMatch\<close> (a name and a type, each
  possibly absent) and the parameters pushed so far.
\<close>

fun collectParameters ::
  "capture list \<Rightarrow> string option \<times> string option \<Rightarrow> Parameter list \<Rightarrow> Parameter list" where
  "collectParameters [] paramMatch ps = ps"
| "collectParameters (c # cs) paramMatch ps =
     (let pm = (if fst c = ''param_name'' then (Some (node_text (snd c)), snd paramMatch)
                else if fst c = ''param_type'' then (fst paramMatch, Some (node_text (snd c)))
                else paramMatch)
      in if truthy (fst pm)
         then collectParameters cs (None, None)
                (ps @ [\<lparr>param_name = the (fst pm), param_type = snd pm\<rparr>])
         else collectParameters cs pm ps)"

text \<open>
  The fallback on the text of the parameter block: \<^verbatim>\<open>text.slice(1, -1).split(',')\<close>, each
  piece turned into a parameter by the host's trimming and pattern match, the
  parameters with an empty name dropped.
\<close>

definition fallbackParameters :: "host \<Rightarrow> string \<Rightarrow> Parameter list" where
  "fallbackParameters env txt =
     filter (\<lambda>p. param_name p \<noteq> [])
       (map (fallbackParameter env) (js_split CHR '','' (butlast (tl txt))))"

text \<open>
  The \<^verbatim>\<open>try\<close> block that finds the calls: the names captured as \<^verbatim>\<open>call_name\<close>, collected in
  a \<^verbatim>\<open>Set\<close>. The result is the new value of the field \<^verbatim>\<open>calls\<close>: it is assigned only
  when the set is not empty, and a query that throws is caught and assigns nothing.
\<close>

definition calledNames :: "capture list list \<Rightarrow> string list" where
  "calledNames callMatches =
     fold (\<lambda>callMatch names.
             case captureNode callMatch ''call_name'' of
               None \<Rightarrow> names
             | Some callNameNode \<Rightarrow> set_add (node_text callNameNode) names)
          callMatches []"

definition findCalls ::
  "host \<Rightarrow> string \<Rightarrow> (string \<times> string) list \<Rightarrow> SyntaxNode \<Rightarrow> string list option" where
  "findCalls env language langQueries definitionNode =
     (case map_of langQueries ''call'' of
        None \<Rightarrow> None
      | Some callQueryStr \<Rightarrow>
          if callQueryStr = [] then None
          else (case matches env language callQueryStr definitionNode of
                  None \<Rightarrow> None
                | Some callMatches \<Rightarrow>
                    if calledNames callMatches \<noteq> [] then Some (calledNames callMatches)
                    else None))"

text \<open>
  The body of the loop over the matches of one query, for one match. \<open>Inl n\<close>: an
  exception leaves the loop (it is caught around the whole query). \<open>Inr (None, n)\<close>:
  the match is skipped. \<open>Inr (Some d, n)\<close>: \<open>d\<close> is pushed. In each case \<open>n\<close> is the new
  value of \<^verbatim>\<open>idCounter\<close>.
\<close>

definition isCallable :: "string \<Rightarrow> bool" where
  "isCallable defType = (defType = ''method'' \<or> defType = ''function'')"

text \<open>The object literal \<^verbatim>\<open>definition\<close>.\<close>

definition newDefinition ::
  "string \<Rightarrow> nat \<Rightarrow> capture list \<Rightarrow> SyntaxNode \<Rightarrow> SyntaxNode \<Rightarrow> Definition" where
  "newDefinition defType idCounter match nameNode definitionNode =
     (let startRow = fst (startPosition definitionNode);
          endRow = fst (endPosition definitionNode)
      in \<lparr>def_id = Some (generateId idCounter),
          def_type = defType,
          name = node_text nameNode,
          startLine = int startRow + 1,
          endLine = int endRow + 1,
          modifier = map_option node_text (captureNode match ''modifier''),
          dataType = map_option node_text (captureNode match ''dataType''),
          def_value = map_option node_text (captureNode match ''value''),
          parentId = None,
          children = Some [],
          parameters = None,
          returnType = map_option node_text (captureNode match ''return_type''),
          complexity = Some 1,
          parameterCount = Some 0,
          loc = Some (int endRow - int startRow + 1),
          calls = None\<rparr>)"

text \<open>The block \<^verbatim>\<open>if (paramsNode)\<close> up to the assignment of \<^verbatim>\<open>parameterCount\<close>.\<close>

definition withParameters :: "host \<Rightarrow> SyntaxNode \<Rightarrow> capture list \<Rightarrow> Definition \<Rightarrow> Definition"
  where
  "withParameters env paramsNode paramCaptures d =
     (let fromCaptures = collectParameters paramCaptures (None, None) [];
          params =
            (if fromCaptures = [] \<and> length (node_text paramsNode) > 2
             then fallbackParameters env (node_text paramsNode) else fromCaptures)
      in d\<lparr>parameters := Some params, parameterCount := Some (int (length params))\<rparr>)"

definition withCalls ::
  "host \<Rightarrow> string \<Rightarrow> (string \<times> string) list \<Rightarrow> SyntaxNode \<Rightarrow> Definition \<Rightarrow> Definition" where
  "withCalls env language langQueries definitionNode d =
     (case findCalls env language langQueries definitionNode of
        None \<Rightarrow> d
      | Some names \<Rightarrow> d\<lparr>calls := Some names\<rparr>)"

text \<open>
  The return type: the captured node's text or, failing that, what the host's pattern
  finds in the signature text.
\<close>

definition withReturnType ::
  "host \<Rightarrow> string \<Rightarrow> SyntaxNode \<Rightarrow> SyntaxNode option \<Rightarrow> Definition \<Rightarrow> Definition" where
  "withReturnType env code definitionNode returnTypeNode d =
     (case returnTypeNode of
        Some n \<Rightarrow> d\<lparr>returnType := Some (node_text n)\<rparr>
      | None \<Rightarrow>
          (case signatureReturnType env code definitionNode of
             Some t \<Rightarrow> d\<lparr>returnType := Some t\<rparr>
           | None \<Rightarrow> d))"

definition processMatch ::
  "host \<Rightarrow> string \<Rightarrow> (string \<times> string) list \<Rightarrow> string \<Rightarrow> string \<Rightarrow> string \<Rightarrow> nat
     \<Rightarrow> capture list \<Rightarrow> nat + (Definition option \<times> nat)" where
  "processMatch env language langQueries defType queryStr code idCounter match =
     (case (captureNode match ''name'', captureNode match defType) of
        (Some nameNode, Some definitionNode) \<Rightarrow>
          let returnTypeNode = captureNode match ''return_type'';
              paramsNode = captureNode match ''params'';
              definition = newDefinition defType idCounter match nameNode definitionNode
          in
          if isCallable defType then
            let d1 = definition\<lparr>complexity := Some (calculateComplexity (Some definitionNode))\<rparr>
            in
            (case paramsNode of
               None \<Rightarrow>
                 Inr (Some (withReturnType env code definitionNode returnTypeNode d1),
                      Suc idCounter)
             | Some pn \<Rightarrow>
                 (case captures env language queryStr pn of
                    None \<Rightarrow> Inl (Suc idCounter)
                  | Some paramCaptures \<Rightarrow>
                      Inr (Some (withReturnType env code definitionNode returnTypeNode
                                   (withCalls env language langQueries definitionNode
                                      (withParameters env pn paramCaptures d1))),
                           Suc idCounter)))
          else Inr (Some definition, Suc idCounter)
      | _ \<Rightarrow> Inr (None, idCounter))"

text \<open>
  The loop over the matches of one query. An exception inside it ends the loop and
  keeps what was pushed before: the \<^verbatim>\<open>catch\<close> around the query only logs.
\<close>

fun processMatches ::
  "host \<Rightarrow> string \<Rightarrow> (string \<times> string) list \<Rightarrow> string \<Rightarrow> string \<Rightarrow> string
     \<Rightarrow> capture list list \<Rightarrow> Definition list \<times> nat \<Rightarrow> Definition list \<times> nat" where
  "processMatches env language langQueries defType queryStr code [] st = st"
| "processMatches env language langQueries defType queryStr code (m # ms) (definitions, idCounter) =
     (case processMatch env language langQueries defType queryStr code idCounter m of
        Inl n \<Rightarrow> (definitions, n)
      | Inr (None, n) \<Rightarrow>
          processMatches env language langQueries defType queryStr code ms (definitions, n)
      | Inr (Some d, n) \<Rightarrow>
          processMatches env language langQueries defType queryStr code ms (definitions @ [d], n))"

text \<open>The loop \<^verbatim>\<open>for (const defType in langQueries)\<close>.\<close>

fun processQueries ::
  "host \<Rightarrow> string \<Rightarrow> (string \<times> string) list \<Rightarrow> string \<Rightarrow> SyntaxNode
     \<Rightarrow> (string \<times> string) list \<Rightarrow> Definition list \<times> nat \<Rightarrow> Definition list \<times> nat" where
  "processQueries env language langQueries code rootNode [] st = st"
| "processQueries env language langQueries code rootNode ((defType, queryStr) # rest) st =
     (if queryStr = [] then processQueries env language langQueries code rootNode rest st
      else
        (case matches env language queryStr rootNode of
           None \<Rightarrow> processQueries env language langQueries code rootNode rest st
         | Some ms \<Rightarrow>
             processQueries env language langQueries code rootNode rest
               (processMatches env language langQueries defType queryStr code ms st)))"

section \<open>The calls of a definition, in the specification's words\<close>

text \<open>
  The names in first-seen order without duplicates; the callee names of the matches
  of the call query; and the field \<^verbatim>\<open>calls\<close>: absent when there is no call query, when
  the query throws or when it finds no name, otherwise the names found, each once, in
  first-seen order.
\<close>

fun spec_first_seen :: "'a list \<Rightarrow> 'a list" where
  "spec_first_seen [] = []"
| "spec_first_seen (x # xs) = x # spec_first_seen (filter (\<lambda>y. y \<noteq> x) xs)"

definition calleeNames :: "capture list list \<Rightarrow> string list" where
  "calleeNames callMatches =
     concat (map (\<lambda>callMatch. case captureNode callMatch ''call_name'' of
                                 None \<Rightarrow> [] | Some n \<Rightarrow> [node_text n]) callMatches)"

definition spec_calls ::
  "host \<Rightarrow> string \<Rightarrow> (string \<times> string) list \<Rightarrow> SyntaxNode \<Rightarrow> string list option" where
  "spec_calls env language langQueries definitionNode =
     (case map_of langQueries ''call'' of
        None \<Rightarrow> None
      | Some callQueryStr \<Rightarrow>
          if callQueryStr = [] then None
          else (case matches env language callQueryStr definitionNode of
                  None \<Rightarrow> None
                | Some callMatches \<Rightarrow>
                    if calleeNames callMatches = [] then None
                    else Some (spec_first_seen (calleeNames callMatches))))"

section \<open>Hierarchy\<close>

text \<open>
  Positions are compared row first. \<^verbatim>\<open>descendantForPosition\<close> is the parser library's:
  from the node it goes down, at each node into the first child that ends after the
  position, as long as that child starts at or before the position. \<open>descend\<close> returns
  the nodes on the way, the start node first, so that the last one is the node the
  library returns and the others are its ancestors.
\<close>

definition point_lt :: "nat \<times> nat \<Rightarrow> nat \<times> nat \<Rightarrow> bool" where
  "point_lt p q = (fst p < fst q \<or> (fst p = fst q \<and> snd p < snd q))"

definition point_le :: "nat \<times> nat \<Rightarrow> nat \<times> nat \<Rightarrow> bool" where
  "point_le p q = (fst p < fst q \<or> (fst p = fst q \<and> snd p \<le> snd q))"

fun descend :: "SyntaxNode \<Rightarrow> nat \<times> nat \<Rightarrow> SyntaxNode list"
  and descendChildren :: "SyntaxNode list \<Rightarrow> nat \<times> nat \<Rightarrow> SyntaxNode list" where
  "descend (SyntaxNode ty fl tx sp ep cs) pt =
     SyntaxNode ty fl tx sp ep cs # descendChildren cs pt"
| "descendChildren [] pt = []"
| "descendChildren (c # cs) pt =
     (if point_le (endPosition c) pt then descendChildren cs pt
      else if point_lt pt (startPosition c) then []
      else descend c pt)"

text \<open>The chain \<^verbatim>\<open>node.parent\<close>, \<^verbatim>\<open>node.parent.parent\<close>, ... of the node at a position.\<close>

definition parentChain :: "SyntaxNode \<Rightarrow> nat \<times> nat \<Rightarrow> SyntaxNode list" where
  "parentChain rootNode pt = tl (rev (descend rootNode pt))"

definition plausibleParentTypes :: "string list" where
  "plausibleParentTypes =
     [''class'', ''namespace'', ''interface'', ''enum'', ''method'', ''function'']"

text \<open>The callback of \<^verbatim>\<open>definitions.find\<close> in the parent search.\<close>

definition isParentFor :: "SyntaxNode \<Rightarrow> Definition \<Rightarrow> Definition \<Rightarrow> bool" where
  "isParentFor potentialParentNode d p =
     (def_id p \<noteq> def_id d
      \<and> startLine p = int (fst (startPosition potentialParentNode)) + 1
      \<and> endLine p = int (fst (endPosition potentialParentNode)) + 1
      \<and> def_type p \<in> set plausibleParentTypes)"

text \<open>\<^verbatim>\<open>find\<close> returns an object of the array; the model returns its index.\<close>

fun findIndex :: "('a \<Rightarrow> bool) \<Rightarrow> 'a list \<Rightarrow> nat option" where
  "findIndex P [] = None"
| "findIndex P (x # xs) = (if P x then Some 0 else map_option Suc (findIndex P xs))"

fun findParent :: "Definition list \<Rightarrow> Definition \<Rightarrow> SyntaxNode list \<Rightarrow> nat option" where
  "findParent definitions d [] = None"
| "findParent definitions d (potentialParentNode # outer) =
     (case findIndex (isParentFor potentialParentNode d) definitions of
        Some j \<Rightarrow> Some j
      | None \<Rightarrow> findParent definitions d outer)"

text \<open>
  The callback of \<^verbatim>\<open>definitions.forEach\<close> for the definition at index \<open>i\<close>: it writes
  \<^verbatim>\<open>parentId\<close> of that definition and pushes its id to the parent's \<^verbatim>\<open>children\<close>. The row
  handed to the parser is \<^verbatim>\<open>def.startLine - 1\<close>, for the definitions of the extractor
  the start row of their node.
\<close>

definition linkParent :: "SyntaxNode \<Rightarrow> nat \<Rightarrow> Definition list \<Rightarrow> Definition list" where
  "linkParent rootNode i definitions =
     (let d = definitions ! i in
      case findParent definitions d (parentChain rootNode (nat (startLine d - 1), 0)) of
        None \<Rightarrow> definitions
      | Some j \<Rightarrow>
          let parent = definitions ! j;
              ds1 = definitions[i := d\<lparr>parentId := def_id parent\<rparr>]
          in if truthy (def_id d)
             then ds1[j := (ds1 ! j)\<lparr>children :=
                     Some ((case children (ds1 ! j) of None \<Rightarrow> [] | Some cs \<Rightarrow> cs)
                           @ [the (def_id d)])\<rparr>]
             else ds1)"

definition linkParents :: "SyntaxNode \<Rightarrow> Definition list \<Rightarrow> Definition list" where
  "linkParents rootNode definitions =
     fold (linkParent rootNode) [0 ..< length definitions] definitions"

definition errorDefinition :: "string \<Rightarrow> Definition" where
  "errorDefinition nm =
     \<lparr>def_id = None, def_type = ''error'', name = nm, startLine = 0, endLine = 0,
      modifier = None, dataType = None, def_value = None, parentId = None,
      children = None, parameters = None, returnType = None, complexity = None,
      parameterCount = None, loc = None, calls = None\<rparr>"

definition parseCodeWithTreeSitter :: "host \<Rightarrow> string \<Rightarrow> string \<Rightarrow> Definition list" where
  "parseCodeWithTreeSitter env code filePath =
     (let fileExt = extname env filePath in
      case languageMap env fileExt of
        None \<Rightarrow> [errorDefinition ''Unsupported file type'']
      | Some language \<Rightarrow>
          (case parse env language code of
             None \<Rightarrow>
               [errorDefinition
                  (if isSelf env filePath then ''Failed to parse self ('' @ filePath @ '')''
                   else ''Failed to parse '' @ filePath)]
           | Some rootNode \<Rightarrow>
               (case queries env fileExt of
                  None \<Rightarrow> [errorDefinition ''No queries defined for file type'']
                | Some langQueries \<Rightarrow>
                    linkParents rootNode
                      (fst (processQueries env language langQueries code rootNode
                              langQueries ([], 0))))))"

section \<open>Hierarchy: trees, spans and the parent search\<close>

text \<open>
  A tree is well formed when every node lies within its parent. \<open>containsPoint\<close>: the
  node starts at or before the position and ends after it. \<open>keyFields\<close> are the fields
  the parent search reads; linking writes none of them. \<open>firstMatchingAncestor\<close>: on
  the chain of ancestors, innermost first, \<open>a\<close> is the first node whose line span is
  that of another definition of a container kind. \<open>expectedParent\<close> is the value of
  \<^verbatim>\<open>parentId\<close> that linking leaves at index \<open>i\<close>. A definition is \<open>fresh\<close> when it has no
  parent link yet and a start line of at least 1, as the extractor pushes it.
\<close>

fun wellFormed :: "SyntaxNode \<Rightarrow> bool" where
  "wellFormed (SyntaxNode ty fl tx sp ep cs) =
     (\<forall>c \<in> set cs. point_le sp (startPosition c) \<and> point_le (endPosition c) ep
                     \<and> wellFormed c)"

definition containsPoint :: "SyntaxNode \<Rightarrow> nat \<times> nat \<Rightarrow> bool" where
  "containsPoint n pt = (point_le (startPosition n) pt \<and> point_lt pt (endPosition n))"

definition keyFields :: "Definition \<Rightarrow> string option \<times> string \<times> int \<times> int" where
  "keyFields d = (def_id d, def_type d, startLine d, endLine d)"

definition isParentKey ::
  "SyntaxNode \<Rightarrow> string option \<Rightarrow> string option \<times> string \<times> int \<times> int \<Rightarrow> bool" where
  "isParentKey a i k =
     (case k of (pid, pty, ps, pe) \<Rightarrow>
        pid \<noteq> i \<and> ps = int (fst (startPosition a)) + 1 \<and> pe = int (fst (endPosition a)) + 1
        \<and> pty \<in> set plausibleParentTypes)"

definition firstMatchingAncestor ::
  "Definition list \<Rightarrow> Definition \<Rightarrow> SyntaxNode list \<Rightarrow> SyntaxNode \<Rightarrow> bool" where
  "firstMatchingAncestor definitions d chain a =
     (\<exists>inner outer. chain = inner @ a # outer
        \<and> (\<exists>p \<in> set definitions. isParentFor a d p)
        \<and> (\<forall>a' \<in> set inner. \<forall>p \<in> set definitions. \<not> isParentFor a' d p))"

definition chainOf :: "SyntaxNode \<Rightarrow> Definition \<Rightarrow> SyntaxNode list" where
  "chainOf rootNode d = parentChain rootNode (nat (startLine d - 1), 0)"

definition expectedParent :: "SyntaxNode \<Rightarrow> Definition list \<Rightarrow> nat \<Rightarrow> string option" where
  "expectedParent rootNode ds0 i =
     (case findParent ds0 (ds0 ! i) (chainOf rootNode (ds0 ! i)) of
        None \<Rightarrow> parentId (ds0 ! i)
      | Some j \<Rightarrow> def_id (ds0 ! j))"

definition fresh :: "Definition \<Rightarrow> bool" where
  "fresh d = (parentId d = None \<and> 1 \<le> startLine d)"

text \<open>The id, the parent link and the lines of a definition, to show results.\<close>

definition spanOf :: "Definition \<Rightarrow> string option \<times> string option \<times> int \<times> int" where
  "spanOf d = (def_id d, parentId d, startLine d, endLine d)"

section \<open>The filter engine\<close>

text \<open>\<^verbatim>\<open>def.name.split(' ').pop() || def.name\<close>\<close>

definition lastToken :: "string \<Rightarrow> string" where
  "lastToken nm =
     (case pop (js_split CHR '' '' nm) of
        None \<Rightarrow> nm
      | Some t \<Rightarrow> if t = [] then nm else t)"

definition isMeta :: "Definition \<Rightarrow> bool" where
  "isMeta d = (def_type d = ''error'' \<or> def_type d = ''metadata'')"

text \<open>
  The callback of \<^verbatim>\<open>nonMetaEntries.filter\<close>: each test that returns \<^verbatim>\<open>false\<close> in the
  source is one branch, in the source's order. An invalid \<^verbatim>\<open>namePattern\<close> lands in the
  \<^verbatim>\<open>catch\<close> that returns \<^verbatim>\<open>false\<close>; an invalid \<^verbatim>\<open>excludeNamePattern\<close> lands in the
  \<^verbatim>\<open>catch\<close> that only logs.
\<close>

definition basicFilter ::
  "(string \<Rightarrow> RegExp option) \<Rightarrow> FilterOptions \<Rightarrow> Definition \<Rightarrow> bool" where
  "basicFilter newRegExp filterOptions d =
     (let defModifiers = (case modifier d of None \<Rightarrow> [] | Some m \<Rightarrow> js_split CHR '' '' m)
      in
      if (case includeTypes filterOptions of None \<Rightarrow> False
          | Some ts \<Rightarrow> ts \<noteq> [] \<and> def_type d \<notin> set ts) then False
      else if (case excludeTypes filterOptions of None \<Rightarrow> False
          | Some ts \<Rightarrow> ts \<noteq> [] \<and> def_type d \<in> set ts) then False
      else if (case includeModifiers filterOptions of None \<Rightarrow> False
          | Some ms \<Rightarrow> ms \<noteq> [] \<and>
              (\<not> truthy (modifier d) \<or> \<not> (\<exists>incMod \<in> set ms. incMod \<in> set defModifiers)))
        then False
      else if (case excludeModifiers filterOptions of None \<Rightarrow> False
          | Some ms \<Rightarrow> ms \<noteq> [] \<and>
              (truthy (modifier d) \<and> (\<exists>exMod \<in> set ms. exMod \<in> set defModifiers)))
        then False
      else if (case namePattern filterOptions of None \<Rightarrow> False
          | Some pat \<Rightarrow> pat \<noteq> [] \<and>
              (case newRegExp pat of
                 None \<Rightarrow> True
               | Some regex \<Rightarrow>
                   \<not> test regex (lastToken (name d)) \<and> \<not> test regex (name d)))
        then False
      else if (case excludeNamePattern filterOptions of None \<Rightarrow> False
          | Some pat \<Rightarrow> pat \<noteq> [] \<and>
              (case newRegExp pat of
                 None \<Rightarrow> False
               | Some regex \<Rightarrow>
                   test regex (lastToken (name d)) \<or> test regex (name d)))
        then False
      else if (case minComplexity filterOptions of None \<Rightarrow> False
          | Some lim \<Rightarrow> (case complexity d of None \<Rightarrow> True | Some c \<Rightarrow> c < lim)) then False
      else if (case maxComplexity filterOptions of None \<Rightarrow> False
          | Some lim \<Rightarrow> (case complexity d of None \<Rightarrow> True | Some c \<Rightarrow> c > lim)) then False
      else if (case minParameters filterOptions of None \<Rightarrow> False
          | Some lim \<Rightarrow> (case parameterCount d of None \<Rightarrow> True | Some c \<Rightarrow> c < lim)) then False
      else if (case maxParameters filterOptions of None \<Rightarrow> False
          | Some lim \<Rightarrow> (case parameterCount d of None \<Rightarrow> True | Some c \<Rightarrow> c > lim)) then False
      else True)"

text \<open>
  The test of the ancestor walk on a parent it is about to add. The pattern that strips
  the modifier is the template \<^verbatim>\<open>^${parent.modifier}\\s+\<close>; compiling it, like
  compiling \<^verbatim>\<open>excludeNamePattern\<close>, stands inside the \<^verbatim>\<open>try\<close>, whose \<^verbatim>\<open>catch\<close> logs and
  goes on to add the parent.
\<close>

definition modifierPrefixPattern :: "string \<Rightarrow> string" where
  "modifierPrefixPattern m = ''^'' @ m @ [CHR 0x5C, CHR ''s'', CHR ''+'']"

definition parentExcluded ::
  "(string \<Rightarrow> RegExp option) \<Rightarrow> FilterOptions \<Rightarrow> Definition \<Rightarrow> bool" where
  "parentExcluded newRegExp filterOptions parent =
     (case excludeNamePattern filterOptions of
        None \<Rightarrow> False
      | Some pat \<Rightarrow> pat \<noteq> [] \<and>
          (case newRegExp pat of
             None \<Rightarrow> False
           | Some regex \<Rightarrow>
               (case (case modifier parent of
                        None \<Rightarrow> Some (name parent)
                      | Some m \<Rightarrow>
                          if m = [] then Some (name parent)
                          else map_option (\<lambda>strip. erase strip (name parent))
                                 (newRegExp (modifierPrefixPattern m))) of
                  None \<Rightarrow> False
                | Some nameWithoutModifier \<Rightarrow>
                    test regex nameWithoutModifier \<or> test regex (name parent))))"

text \<open>
  One turn of the loop \<^verbatim>\<open>while (itemsToAdd.length > 0)\<close>. The state is
  \<^verbatim>\<open>entriesToInclude\<close>, \<^verbatim>\<open>processedForParents\<close> and the stack \<^verbatim>\<open>itemsToAdd\<close>, whose top
  is its last element.
\<close>

type_synonym walk_state = "string option list \<times> string list \<times> Definition list"

definition walkStep ::
  "(string \<Rightarrow> RegExp option) \<Rightarrow> FilterOptions \<Rightarrow> Definition list \<Rightarrow> walk_state \<Rightarrow> walk_state"
  where
  "walkStep newRegExp filterOptions definitionsCopy st =
     (case st of (entriesToInclude, processedForParents, itemsToAdd) \<Rightarrow>
        (case pop itemsToAdd of
           None \<Rightarrow> st
         | Some current \<Rightarrow>
             let rest = butlast itemsToAdd in
             if \<not> truthy (def_id current) \<or> the (def_id current) \<in> set processedForParents
             then (entriesToInclude, processedForParents, rest)
             else
               let processed = set_add (the (def_id current)) processedForParents in
               if truthy (parentId current) \<and> parentId current \<notin> set entriesToInclude then
                 (case find (\<lambda>p. def_id p = parentId current) definitionsCopy of
                    None \<Rightarrow> (entriesToInclude, processed, rest)
                  | Some parent \<Rightarrow>
                      if \<not> truthy (def_id parent) then (entriesToInclude, processed, rest)
                      else if parentExcluded newRegExp filterOptions parent
                      then (entriesToInclude, processed, rest)
                      else (set_add (def_id parent) entriesToInclude, processed,
                            rest @ [parent]))
               else (entriesToInclude, processed, rest)))"

lemma find_SomeD: "find P xs = Some x \<Longrightarrow> x \<in> set xs \<and> P x"
  by (induction xs) (auto split: if_splits)

lemma walkStep_decreases:
  assumes "itemsToAdd \<noteq> []"
    and "walkStep newRegExp filterOptions definitionsCopy
           (entriesToInclude, processedForParents, itemsToAdd) = (E', P', items')"
  shows "card (set (map def_id definitionsCopy) - set E')
           < card (set (map def_id definitionsCopy) - set entriesToInclude)
         \<or> (E' = entriesToInclude \<and> length items' < length itemsToAdd)"
proof (cases "E' = entriesToInclude")
  case True
  with assms show ?thesis
    by (auto simp: walkStep_def pop_def Let_def set_add_def
        split: option.splits if_splits dest!: find_SomeD)
next
  case False
  with assms obtain p where p: "p \<in> set definitionsCopy" "def_id p \<notin> set entriesToInclude"
      "E' = set_add (def_id p) entriesToInclude"
    by (auto simp: walkStep_def pop_def Let_def
        split: option.splits if_splits dest!: find_SomeD)
  have "card (set (map def_id definitionsCopy) - set (set_add (def_id p) entriesToInclude))
                < card (set (map def_id definitionsCopy) - set entriesToInclude)"
  proof (rule psubset_card_mono)
    show "finite (set (map def_id definitionsCopy) - set entriesToInclude)" by simp
    from p show "set (map def_id definitionsCopy) - set (set_add (def_id p) entriesToInclude)
                     \<subset> set (map def_id definitionsCopy) - set entriesToInclude"
      by (auto simp: set_add_def)
  qed
  with p show ?thesis by simp
qed

function ancestorWalk ::
  "(string \<Rightarrow> RegExp option) \<Rightarrow> FilterOptions \<Rightarrow> Definition list \<Rightarrow> walk_state
     \<Rightarrow> string option list"
  where
  "ancestorWalk newRegExp filterOptions definitionsCopy (entriesToInclude, processed, itemsToAdd) =
     (if itemsToAdd = [] then entriesToInclude
      else ancestorWalk newRegExp filterOptions definitionsCopy
             (walkStep newRegExp filterOptions definitionsCopy
                (entriesToInclude, processed, itemsToAdd)))"
  by pat_completeness auto
termination
proof (relation "inv_image (less_than <*lex*> less_than)
    (\<lambda>(newRegExp, filterOptions, definitionsCopy, entriesToInclude, processed, itemsToAdd).
       (card (set (map def_id definitionsCopy) - set entriesToInclude), length itemsToAdd))",
    goal_cases)
  case 1
  show ?case by (intro wf_inv_image wf_lex_prod wf_less_than)
next
  case (2 newRegExp filterOptions definitionsCopy entriesToInclude processed itemsToAdd)
  obtain E' P' items' where step:
    "walkStep newRegExp filterOptions definitionsCopy (entriesToInclude, processed, itemsToAdd)
       = (E', P', items')"
    by (cases "walkStep newRegExp filterOptions definitionsCopy
                 (entriesToInclude, processed, itemsToAdd)") auto
  from walkStep_decreases [OF 2 step] show ?case
    by (auto simp: step)
qed

text \<open>
  Steps 5 and 6 of the source on one definition of \<^verbatim>\<open>result\<close>: the children that are
  still present, and the parent link cleared when the parent is gone.
\<close>

definition rebuild :: "string option list \<Rightarrow> Definition \<Rightarrow> Definition" where
  "rebuild finalIds d =
     d\<lparr>children := map_option (filter (\<lambda>childId. Some childId \<in> set finalIds)) (children d),
       parentId := (if truthy (parentId d) \<and> parentId d \<notin> set finalIds
                    then None else parentId d)\<rparr>"

text \<open>
  \<^verbatim>\<open>applyFiltersToDefinitions\<close>. The deep copy \<^verbatim>\<open>JSON.parse(JSON.stringify(definitions))\<close>
  has the values of the input. \<^verbatim>\<open>metaEntries\<close> and \<^verbatim>\<open>result\<close> are both filtered from
  \<^verbatim>\<open>definitionsCopy\<close> and hold the same objects, so the \<^verbatim>\<open>forEach\<close> over \<^verbatim>\<open>result\<close> also
  changes an entry of \<^verbatim>\<open>metaEntries\<close> that is selected into \<^verbatim>\<open>result\<close>: \<open>touch\<close>, the
  callback of that \<^verbatim>\<open>forEach\<close> on a selected object, is applied to both lists. The
  final \<^verbatim>\<open>sort\<close> is the host's stable sort, comparing \<^verbatim>\<open>startLine\<close>.
\<close>

definition selected :: "string option list \<Rightarrow> Definition \<Rightarrow> bool" where
  "selected entriesToInclude d = (truthy (def_id d) \<and> def_id d \<in> set entriesToInclude)"

definition survivorIds ::
  "(string \<Rightarrow> RegExp option) \<Rightarrow> Definition list \<Rightarrow> FilterOptions \<Rightarrow> string option list" where
  "survivorIds newRegExp definitionsCopy filterOptions =
     (let nonMetaEntries = filter (\<lambda>d. \<not> isMeta d) definitionsCopy;
          basicFilteredEntries = filter (basicFilter newRegExp filterOptions) nonMetaEntries
      in ancestorWalk newRegExp filterOptions definitionsCopy
           (new_Set (map def_id basicFilteredEntries), [], basicFilteredEntries))"

definition touch :: "string option list \<Rightarrow> string option list \<Rightarrow> Definition \<Rightarrow> Definition"
  where
  "touch entriesToInclude finalIds d =
     (if selected entriesToInclude d then rebuild finalIds d else d)"

text \<open>The array \<^verbatim>\<open>[...metaEntries, ...result]\<close> of step 7, before the final sort.\<close>

definition materialized ::
  "(string \<Rightarrow> RegExp option) \<Rightarrow> Definition list \<Rightarrow> FilterOptions \<Rightarrow> Definition list" where
  "materialized newRegExp definitions filterOptions =
     (let definitionsCopy = definitions;
          metaEntries = filter isMeta definitionsCopy;
          entriesToInclude = survivorIds newRegExp definitionsCopy filterOptions;
          result = filter (selected entriesToInclude) definitionsCopy;
          finalIds = new_Set (map def_id result)
      in map (touch entriesToInclude finalIds) metaEntries
         @ map (touch entriesToInclude finalIds) result)"

definition applyFiltersToDefinitions ::
  "(string \<Rightarrow> RegExp option) \<Rightarrow> Definition list \<Rightarrow> FilterOptions \<Rightarrow> Definition list" where
  "applyFiltersToDefinitions newRegExp definitions filterOptions =
     (if definitions = [] then []
      else sort_key startLine (materialized newRegExp definitions filterOptions))"

section \<open>The filter engine on a store of objects\<close>

text \<open>
  The same function with the objects made explicit, for what it writes. The store is
  the list of all \<^verbatim>\<open>Definition\<close> objects, an object's address its index; the input
  array is a list of addresses. \<^verbatim>\<open>JSON.parse(JSON.stringify(definitions))\<close> allocates one
  new object per element of the input, with the element's value. The basic filter and
  the walk only read, so they run on the values of the copies. The \<^verbatim>\<open>forEach\<close> of step 6
  assigns to the fields \<^verbatim>\<open>children\<close> and \<^verbatim>\<open>parentId\<close> of the objects of \<^verbatim>\<open>result\<close>; the
  final \<^verbatim>\<open>sort\<close> works on the new array. The function returns the store it leaves and
  the array it returns.
\<close>

type_synonym heap = "Definition list"

definition deepCopy :: "heap \<Rightarrow> nat list \<Rightarrow> heap \<times> nat list" where
  "deepCopy h definitions =
     (h @ map (\<lambda>r. h ! r) definitions, [length h ..< length h + length definitions])"

definition applyFiltersToDefinitions_heap ::
  "(string \<Rightarrow> RegExp option) \<Rightarrow> heap \<Rightarrow> nat list \<Rightarrow> FilterOptions \<Rightarrow> heap \<times> nat list" where
  "applyFiltersToDefinitions_heap newRegExp h definitions filterOptions =
     (if definitions = [] then (h, [])
      else
        (case deepCopy h definitions of (h1, definitionsCopy) \<Rightarrow>
           let metaEntries = filter (\<lambda>r. isMeta (h1 ! r)) definitionsCopy;
               entriesToInclude =
                 survivorIds newRegExp (map (\<lambda>r. h1 ! r) definitionsCopy) filterOptions;
               result = filter (\<lambda>r. selected entriesToInclude (h1 ! r)) definitionsCopy;
               finalIds = new_Set (map (\<lambda>r. def_id (h1 ! r)) result);
               h2 = fold (\<lambda>r hp. hp[r := rebuild finalIds (hp ! r)]) result h1
           in (h2, sort_key (\<lambda>r. startLine (h2 ! r)) (metaEntries @ result))))"

section \<open>Renderers\<close>

datatype DetailLevel = minimal | standard | detailed

datatype OutputFormat = xml | markdown | json

text \<open>
  A value written into the output: a string or a number. The XML document is the tree
  of elements handed to the XML builder, the JSON output the value handed to
  \<^verbatim>\<open>JSON.stringify\<close>; the Markdown output is the text itself.
\<close>

datatype Scalar = Str string | Num int

datatype XmlElement = XmlElement
  (tag: string)
  (attributes: "(string \<times> Scalar) list")
  (elements: "XmlElement list")

datatype Json = JScalar Scalar | JArray "Json list" | JObject "(string \<times> Json) list"

text \<open>\<^verbatim>\<open>if (def.x) attrs.x = def.x\<close> for an optional string.\<close>

definition optionalField :: "string \<Rightarrow> string option \<Rightarrow> (string \<times> Scalar) list" where
  "optionalField key v = (if truthy v then [(key, Str (the v))] else [])"

text \<open>
  The children of a definition that the renderers visit: for each id in \<^verbatim>\<open>children\<close>, in
  stored order, the first definition of the file with that id, if there is one.
\<close>

definition childDefinitions :: "Definition list \<Rightarrow> Definition \<Rightarrow> Definition list" where
  "childDefinitions definitions d =
     List.map_filter (\<lambda>childId. find (\<lambda>x. def_id x = Some childId) definitions)
       (case children d of None \<Rightarrow> [] | Some cs \<Rightarrow> cs)"

definition topLevelDefs :: "Definition list \<Rightarrow> Definition list" where
  "topLevelDefs definitions = filter (\<lambda>d. \<not> truthy (parentId d)) definitions"

definition valueShown :: "Definition \<Rightarrow> bool" where
  "valueShown d =
     (truthy (def_value d) \<and> def_type d \<noteq> ''variable'' \<and> def_type d \<noteq> ''property'')"

subsection \<open>XML\<close>

definition xmlAttrs :: "DetailLevel \<Rightarrow> Definition \<Rightarrow> (string \<times> Scalar) list" where
  "xmlAttrs detailLevel d =
     [(''type'', Str (def_type d)), (''name'', Str (name d))]
     @ (if detailLevel \<noteq> minimal
        then [(''startLine'', Num (startLine d)), (''endLine'', Num (endLine d))]
             @ optionalField ''modifier'' (modifier d)
        else [])
     @ (if detailLevel = detailed
        then optionalField ''dataType'' (dataType d)
             @ (if valueShown d then [(''value'', Str (the (def_value d)))] else [])
             @ optionalField ''returnType'' (returnType d)
        else [])"

definition xmlParameters :: "DetailLevel \<Rightarrow> Definition \<Rightarrow> XmlElement list" where
  "xmlParameters detailLevel d =
     (case parameters d of
        None \<Rightarrow> []
      | Some ps \<Rightarrow>
          if detailLevel = detailed \<and> ps \<noteq> []
          then [XmlElement ''Parameters'' []
                  (map (\<lambda>p. XmlElement ''Parameter''
                               ((''name'', Str (param_name p))
                                # optionalField ''type'' (param_type p)) []) ps)]
          else [])"

definition xmlCalls :: "DetailLevel \<Rightarrow> Definition \<Rightarrow> XmlElement list" where
  "xmlCalls detailLevel d =
     (case calls d of
        None \<Rightarrow> []
      | Some cs \<Rightarrow>
          if detailLevel = detailed \<and> cs \<noteq> []
          then [XmlElement ''Calls'' []
                  (map (\<lambda>callName. XmlElement ''Call'' [(''name'', Str callName)] []) cs)]
          else [])"

text \<open>
  \<^verbatim>\<open>renderDefinition\<close> of \<^verbatim>\<open>formatResultsXML\<close>. The recursion follows the ids in
  \<^verbatim>\<open>children\<close> and need not end; it is given fuel, and \<open>None\<close> says that the fuel ran out.
\<close>

fun renderDefinitionXML ::
  "nat \<Rightarrow> DetailLevel \<Rightarrow> Definition list \<Rightarrow> Definition \<Rightarrow> XmlElement option" where
  "renderDefinitionXML 0 detailLevel definitions d = None"
| "renderDefinitionXML (Suc fuel) detailLevel definitions d =
     map_option
       (\<lambda>rendered. XmlElement ''Definition'' (xmlAttrs detailLevel d)
                      (xmlParameters detailLevel d @ xmlCalls detailLevel d @ rendered))
       (those (map (renderDefinitionXML fuel detailLevel definitions)
                 (childDefinitions definitions d)))"

definition formatResultsXML ::
  "nat \<Rightarrow> (string \<times> Definition list) list \<Rightarrow> DetailLevel \<Rightarrow> XmlElement option" where
  "formatResultsXML fuel results detailLevel =
     map_option (XmlElement ''CodeScanResults'' [])
       (those (map (\<lambda>(filePath, definitions).
                      map_option (XmlElement ''File'' [(''path'', Str filePath)])
                        (those (map (renderDefinitionXML fuel detailLevel definitions)
                                  (topLevelDefs definitions))))
                 results))"

subsection \<open>JSON\<close>

definition jsonScalars :: "(string \<times> Scalar) list \<Rightarrow> (string \<times> Json) list" where
  "jsonScalars kvs = map (\<lambda>(k, v). (k, JScalar v)) kvs"

definition jsonParameter :: "Parameter \<Rightarrow> Json" where
  "jsonParameter p =
     JObject ((''name'', JScalar (Str (param_name p)))
              # (case param_type p of None \<Rightarrow> [] | Some t \<Rightarrow> [(''type'', JScalar (Str t))]))"

definition jsonDetails :: "DetailLevel \<Rightarrow> Definition \<Rightarrow> (string \<times> Json) list" where
  "jsonDetails detailLevel d =
     jsonScalars ([(''startLine'', Num (startLine d)), (''endLine'', Num (endLine d))]
                  @ optionalField ''modifier'' (modifier d))
     @ (if detailLevel = detailed
        then jsonScalars (optionalField ''dataType'' (dataType d)
                          @ (if valueShown d then [(''value'', Str (the (def_value d)))] else []))
             @ (case parameters d of
                  None \<Rightarrow> []
                | Some ps \<Rightarrow> if ps \<noteq> [] then [(''parameters'', JArray (map jsonParameter ps))]
                             else [])
             @ jsonScalars (optionalField ''returnType'' (returnType d))
             @ (case calls d of
                  None \<Rightarrow> []
                | Some cs \<Rightarrow> if cs \<noteq> []
                             then [(''calls'', JArray (map (\<lambda>c. JScalar (Str c)) cs))]
                             else [])
        else [])"

text \<open>
  \<^verbatim>\<open>createDefinitionObject\<close>. At the minimal level it returns before it looks at the
  children.
\<close>

fun createDefinitionObject ::
  "nat \<Rightarrow> DetailLevel \<Rightarrow> Definition \<Rightarrow> Definition list \<Rightarrow> Json option" where
  "createDefinitionObject 0 detailLevel d allDefs = None"
| "createDefinitionObject (Suc fuel) detailLevel d allDefs =
     (let baseObj = jsonScalars [(''type'', Str (def_type d)), (''name'', Str (name d))]
      in if detailLevel = minimal then Some (JObject baseObj)
         else
           (case children d of
              None \<Rightarrow> Some (JObject (baseObj @ jsonDetails detailLevel d))
            | Some cs \<Rightarrow>
                if cs = [] then Some (JObject (baseObj @ jsonDetails detailLevel d))
                else map_option
                       (\<lambda>rendered. JObject (baseObj @ jsonDetails detailLevel d
                                             @ [(''children'', JArray rendered)]))
                       (those (map (\<lambda>child. createDefinitionObject fuel detailLevel child allDefs)
                                 (childDefinitions allDefs d)))))"

definition formatResultsJSON ::
  "nat \<Rightarrow> (string \<times> Definition list) list \<Rightarrow> DetailLevel \<Rightarrow> Json option" where
  "formatResultsJSON fuel results detailLevel =
     map_option JObject
       (those (map (\<lambda>(filePath, definitions).
                      map_option (\<lambda>objs. (filePath, JArray objs))
                        (those (map (\<lambda>d. createDefinitionObject fuel detailLevel d definitions)
                                  (topLevelDefs definitions))))
                 results))"

subsection \<open>Markdown\<close>

text \<open>
  Strings of the host: a number in a template, \<^verbatim>\<open>toUpperCase\<close> (on the letters a to z; the
  kinds are such words), \<^verbatim>\<open>join\<close>, and the first 50 characters of a value.
\<close>

definition showNumber :: "int \<Rightarrow> string" where
  "showNumber i = (if i < 0 then CHR ''-'' # decimal (nat (- i)) else decimal (nat i))"

definition toUpperCase :: "string \<Rightarrow> string" where
  "toUpperCase s =
     map (\<lambda>c. let n = (of_char c :: nat)
                in if 97 \<le> n \<and> n \<le> 122 then char_of (n - 32) else c) s"

fun join :: "string \<Rightarrow> string list \<Rightarrow> string" where
  "join sep [] = []"
| "join sep [x] = x"
| "join sep (x # y # ys) = x @ sep @ join sep (y # ys)"

definition backtick :: string where
  "backtick = [CHR 0x60]"

definition newline :: string where
  "newline = [CHR 0x0A]"

definition inlineCode :: "string \<Rightarrow> string" where
  "inlineCode s = backtick @ s @ backtick"

definition mdHead :: "Definition \<Rightarrow> string" where
  "mdHead d = ''- **'' @ toUpperCase (def_type d) @ ''**: '' @ inlineCode (name d)"

definition mdLines :: "Definition \<Rightarrow> string" where
  "mdLines d = ''(Lines: '' @ showNumber (startLine d) @ ''-'' @ showNumber (endLine d) @ '')''"

definition mdModifier :: "Definition \<Rightarrow> string" where
  "mdModifier d = (if truthy (modifier d) then '' ['' @ inlineCode (the (modifier d)) @ '']'' else [])"

definition mdDetails :: "Definition \<Rightarrow> string list" where
  "mdDetails d =
     (if truthy (dataType d) then [''DataType: '' @ inlineCode (the (dataType d))] else [])
     @ (if valueShown d
        then [''Value: ''
              @ inlineCode (take 50 (the (def_value d))
                      @ (if length (the (def_value d)) > 50 then ''...'' else []))]
        else [])
     @ (case parameters d of
          None \<Rightarrow> []
        | Some ps \<Rightarrow>
            if ps \<noteq> []
            then [''Params: ''
                  @ join '', ''
                      (map (\<lambda>p. inlineCode (param_name p
                                        @ (if truthy (param_type p)
                                           then '': '' @ the (param_type p) else []))) ps)]
            else [])
     @ (if truthy (returnType d) then [''Returns: '' @ inlineCode (the (returnType d))] else [])
     @ (case calls d of
          None \<Rightarrow> []
        | Some cs \<Rightarrow>
            if cs \<noteq> [] then [''Calls: '' @ inlineCode (join (backtick @ '', '' @ backtick) cs)]
            else [])"

text \<open>The line of one definition, without the indentation and the line break.\<close>

definition mdLine :: "DetailLevel \<Rightarrow> Definition \<Rightarrow> string" where
  "mdLine detailLevel d =
     (case detailLevel of
        minimal \<Rightarrow> mdHead d
      | standard \<Rightarrow> mdHead d @ '' '' @ mdLines d @ mdModifier d
      | detailed \<Rightarrow>
          mdHead d @ '' '' @ mdLines d @ mdModifier d
          @ (if mdDetails d \<noteq> [] then '' { '' @ join ''; '' (mdDetails d) @ '' }'' else []))"

definition indentation :: "nat \<Rightarrow> string" where
  "indentation indent = concat (replicate indent ''  '')"

text \<open>\<^verbatim>\<open>renderDefinition\<close> of \<^verbatim>\<open>formatResultsMarkdown\<close>, with fuel as for XML.\<close>

fun renderDefinitionMarkdown ::
  "nat \<Rightarrow> DetailLevel \<Rightarrow> Definition \<Rightarrow> Definition list \<Rightarrow> nat \<Rightarrow> string option" where
  "renderDefinitionMarkdown 0 detailLevel d definitions indent = None"
| "renderDefinitionMarkdown (Suc fuel) detailLevel d definitions indent =
     map_option
       (\<lambda>rendered. indentation indent @ mdLine detailLevel d @ newline @ concat rendered)
       (those (map (\<lambda>child. renderDefinitionMarkdown fuel detailLevel child definitions
                              (indent + 1))
                 (childDefinitions definitions d)))"

text \<open>The section of one file.\<close>

definition markdownFile ::
  "nat \<Rightarrow> DetailLevel \<Rightarrow> (string \<Rightarrow> string) \<Rightarrow> string \<times> Definition list \<Rightarrow> string option" where
  "markdownFile fuel detailLevel relativeTo entry =
     (case entry of (filePath, definitions) \<Rightarrow>
        map_option
          (\<lambda>body. ''## File: '' @ inlineCode (relativeTo filePath) @ newline @ newline
                   @ body @ newline)
          (if topLevelDefs definitions = [] \<and> definitions \<noteq> []
           then map_option
                  (\<lambda>rendered. ''  *(No top-level definitions found, listing all)*'' @ newline
                               @ concat rendered)
                  (those (map (\<lambda>d. renderDefinitionMarkdown fuel detailLevel d definitions 1)
                            definitions))
           else map_option concat
                  (those (map (\<lambda>d. renderDefinitionMarkdown fuel detailLevel d definitions 0)
                            (topLevelDefs definitions)))))"

text \<open>
  \<^verbatim>\<open>formatResultsMarkdown\<close>. The files come in the order of their sorted paths;
  \<open>relativeTo\<close> is the host's \<^verbatim>\<open>path.relative(directoryPath, filePath)\<close> with the separators
  normalised. A file stored under the key \<^verbatim>\<open>metadata\<close> is listed once more at the end.
\<close>

definition formatResultsMarkdown ::
  "nat \<Rightarrow> (string \<times> Definition list) list \<Rightarrow> DetailLevel \<Rightarrow> string \<Rightarrow> (string \<Rightarrow> string)
     \<Rightarrow> string option" where
  "formatResultsMarkdown fuel results detailLevel directoryPath relativeTo =
     map_option
       (\<lambda>sections.
          ''# Code Scan Results for '' @ directoryPath @ newline @ newline
          @ concat sections
          @ (case map_of results ''metadata'' of
               None \<Rightarrow> []
             | Some metaEntries \<Rightarrow>
                 if metaEntries = [] then []
                 else ''## Metadata'' @ newline @ newline
                      @ concat (map (\<lambda>m. ''- **'' @ def_type m @ ''**: '' @ name m @ newline)
                                  metaEntries)
                      @ newline))
       (those (map (markdownFile fuel detailLevel relativeTo)
                 (sort_key fst results)))"

section \<open>The scan\<close>

text \<open>\<^verbatim>\<open>obj[key] = v\<close> on an object whose keys are kept in insertion order.\<close>

fun assign :: "'k \<Rightarrow> 'v \<Rightarrow> ('k \<times> 'v) list \<Rightarrow> ('k \<times> 'v) list" where
  "assign k v [] = [(k, v)]"
| "assign k v (e # es) = (if fst e = k then (k, v) # es else e # assign k v es)"

text \<open>
  The loop that reads and parses the files. A file that cannot be read lands in the
  \<^verbatim>\<open>catch\<close>; \<open>Inl message\<close> is the error's message.
\<close>

definition parseFiles :: "host \<Rightarrow> string list \<Rightarrow> (string \<times> Definition list) list" where
  "parseFiles env filesToFilter =
     fold (\<lambda>absoluteFilePath results.
             case readFile env absoluteFilePath of
               Inl message \<Rightarrow>
                 assign absoluteFilePath
                   [errorDefinition (''Failed to read/parse: '' @ message)] results
             | Inr content \<Rightarrow>
                 let definitions = parseCodeWithTreeSitter env content absoluteFilePath
                 in if definitions \<noteq> [] then assign absoluteFilePath definitions results
                    else results)
          filesToFilter []"

text \<open>The loop that filters each file and keeps the files with a definition that is no error.\<close>

definition filterResults ::
  "host \<Rightarrow> (string \<Rightarrow> RegExp option) \<Rightarrow> string \<Rightarrow> (string \<times> Definition list) list
     \<Rightarrow> FilterOptions \<Rightarrow> (string \<times> Definition list) list" where
  "filterResults env newRegExp targetDir results filterOptions =
     fold (\<lambda>(absoluteFilePath, definitions) filteredResults.
             let filteredDefs = applyFiltersToDefinitions newRegExp definitions filterOptions;
                 hasRealDefinitions = (\<exists>d \<in> set filteredDefs. def_type d \<noteq> ''error'')
             in if hasRealDefinitions
                then assign (relative env targetDir absoluteFilePath) filteredDefs filteredResults
                else filteredResults)
          results []"

datatype Output = XmlOutput XmlElement | JsonOutput Json | MarkdownOutput string

text \<open>
  \<^verbatim>\<open>performScan\<close> from the list of files that discovery and the ignore rules have left
  (\<^verbatim>\<open>filesToFilter\<close>) to the output. \<open>None\<close>: the renderer ran out of fuel.
\<close>

definition performScan ::
  "host \<Rightarrow> (string \<Rightarrow> RegExp option) \<Rightarrow> nat \<Rightarrow> string \<Rightarrow> string list \<Rightarrow> OutputFormat
     \<Rightarrow> DetailLevel \<Rightarrow> FilterOptions \<Rightarrow> Output option" where
  "performScan env newRegExp fuel directory filesToFilter outputFormat detailLevel filterOptions =
     (let targetDir = resolve env directory;
          results = parseFiles env filesToFilter;
          filteredResults = filterResults env newRegExp targetDir results filterOptions
      in case outputFormat of
           xml \<Rightarrow> map_option XmlOutput (formatResultsXML fuel filteredResults detailLevel)
         | json \<Rightarrow> map_option JsonOutput (formatResultsJSON fuel filteredResults detailLevel)
         | markdown \<Rightarrow>
             map_option MarkdownOutput
               (formatResultsMarkdown fuel filteredResults detailLevel directory
                  (relative env directory)))"

section \<open>The scan, step by step\<close>

text \<open>
  What the scan records for one file; the two loop bodies of the scan as functions of
  their own; an object without one of its keys; and the condition under which the
  extractor gives up on a file: no registered language, a parse that raises, or no
  query set.
\<close>

definition scanFile :: "host \<Rightarrow> string \<Rightarrow> Definition list" where
  "scanFile env absoluteFilePath =
     (case readFile env absoluteFilePath of
        Inl message \<Rightarrow> [errorDefinition (''Failed to read/parse: '' @ message)]
      | Inr content \<Rightarrow> parseCodeWithTreeSitter env content absoluteFilePath)"

definition parseStep :: "host \<Rightarrow> string \<Rightarrow> (string \<times> Definition list) list
    \<Rightarrow> (string \<times> Definition list) list" where
  "parseStep env p results =
     (if scanFile env p \<noteq> [] then assign p (scanFile env p) results else results)"

definition dropKey :: "'k \<Rightarrow> ('k \<times> 'v) list \<Rightarrow> ('k \<times> 'v) list" where
  "dropKey k es = filter (\<lambda>e. fst e \<noteq> k) es"

definition filterStep ::
  "host \<Rightarrow> (string \<Rightarrow> RegExp option) \<Rightarrow> string \<Rightarrow> FilterOptions \<Rightarrow> string \<times> Definition list
     \<Rightarrow> (string \<times> Definition list) list \<Rightarrow> (string \<times> Definition list) list" where
  "filterStep env newRegExp targetDir filterOptions entry filteredResults =
     (let filteredDefs = applyFiltersToDefinitions newRegExp (snd entry) filterOptions
      in if (\<exists>d \<in> set filteredDefs. def_type d \<noteq> ''error'')
         then assign (relative env targetDir (fst entry)) filteredDefs filteredResults
         else filteredResults)"

definition extractionFails :: "host \<Rightarrow> string \<Rightarrow> string \<Rightarrow> bool" where
  "extractionFails env code filePath =
     (case languageMap env (extname env filePath) of
        None \<Rightarrow> True
      | Some language \<Rightarrow>
          parse env language code = None \<or> queries env (extname env filePath) = None)"

section \<open>Ancestors and survival\<close>

text \<open>
  The parent of a definition in the list before filtering, as the walk finds it; the
  ancestors along the \<^verbatim>\<open>parentId\<close> chain; the ancestors reached through parents none of
  which the walk's name test excludes; and what it means to survive: an entry with the
  definition's id is in the filtered list. \<open>spec_name_excluded\<close> is the specification's
  test of a name against \<^verbatim>\<open>excludeNamePattern\<close> (the full name and its last token).
\<close>

definition parentOf :: "Definition list \<Rightarrow> Definition \<Rightarrow> Definition option" where
  "parentOf definitions d =
     (if truthy (parentId d) then find (\<lambda>p. def_id p = parentId d) definitions else None)"

inductive ancestor :: "Definition list \<Rightarrow> Definition \<Rightarrow> Definition \<Rightarrow> bool"
  for definitions :: "Definition list" where
  ancestor_parent: "parentOf definitions d = Some p \<Longrightarrow> ancestor definitions d p"
| ancestor_step: "ancestor definitions d a \<Longrightarrow> parentOf definitions a = Some p
                   \<Longrightarrow> ancestor definitions d p"

inductive keptAncestor ::
  "(string \<Rightarrow> RegExp option) \<Rightarrow> FilterOptions \<Rightarrow> Definition list \<Rightarrow> Definition \<Rightarrow> Definition
     \<Rightarrow> bool"
  for newRegExp :: "string \<Rightarrow> RegExp option" and filterOptions :: FilterOptions
    and definitions :: "Definition list" where
  kept_parent: "parentOf definitions d = Some p
                  \<Longrightarrow> \<not> parentExcluded newRegExp filterOptions p
                  \<Longrightarrow> keptAncestor newRegExp filterOptions definitions d p"
| kept_step: "keptAncestor newRegExp filterOptions definitions d a
                \<Longrightarrow> parentOf definitions a = Some p
                \<Longrightarrow> \<not> parentExcluded newRegExp filterOptions p
                \<Longrightarrow> keptAncestor newRegExp filterOptions definitions d p"

definition survives ::
  "(string \<Rightarrow> RegExp option) \<Rightarrow> Definition list \<Rightarrow> FilterOptions \<Rightarrow> Definition \<Rightarrow> bool" where
  "survives newRegExp definitions filterOptions d =
     (truthy (def_id d)
      \<and> (\<exists>r \<in> set (applyFiltersToDefinitions newRegExp definitions filterOptions).
            def_id r = def_id d))"

definition spec_name_excluded ::
  "(string \<Rightarrow> RegExp option) \<Rightarrow> FilterOptions \<Rightarrow> Definition \<Rightarrow> bool" where
  "spec_name_excluded newRegExp filterOptions d =
     (case excludeNamePattern filterOptions of
        None \<Rightarrow> False
      | Some pat \<Rightarrow> pat \<noteq> [] \<and>
          (case newRegExp pat of
             None \<Rightarrow> False
           | Some regex \<Rightarrow> test regex (lastToken (name d)) \<or> test regex (name d)))"

section \<open>The filter conditions, in the specification's words\<close>

text \<open>
  The conditions of a filter configuration, one by one: the kind is allowed and not
  denied; a token of the space-split modifier is among the included modifiers, and none
  is among the excluded ones; the name pattern compiles and matches the full name or its
  last token; each metric bound is met by a metric that is present. A list that is
  absent or empty and a pattern that is absent or empty are no condition. The test
  against \<^verbatim>\<open>excludeNamePattern\<close> is \<open>spec_name_excluded\<close> above.
\<close>

definition modifierTokens :: "Definition \<Rightarrow> string list" where
  "modifierTokens d =
     (case modifier d of None \<Rightarrow> [] | Some m \<Rightarrow> if m = [] then [] else js_split CHR '' '' m)"

definition spec_kind_allowed :: "FilterOptions \<Rightarrow> Definition \<Rightarrow> bool" where
  "spec_kind_allowed filterOptions d =
     ((case includeTypes filterOptions of
         None \<Rightarrow> True | Some ts \<Rightarrow> ts = [] \<or> def_type d \<in> set ts)
      \<and> (case excludeTypes filterOptions of
           None \<Rightarrow> True | Some ts \<Rightarrow> def_type d \<notin> set ts))"

definition spec_modifier_allowed :: "FilterOptions \<Rightarrow> Definition \<Rightarrow> bool" where
  "spec_modifier_allowed filterOptions d =
     ((case includeModifiers filterOptions of
         None \<Rightarrow> True
       | Some ms \<Rightarrow> ms = [] \<or> (\<exists>t \<in> set (modifierTokens d). t \<in> set ms))
      \<and> (case excludeModifiers filterOptions of
           None \<Rightarrow> True
         | Some ms \<Rightarrow> \<not> (\<exists>t \<in> set (modifierTokens d). t \<in> set ms)))"

definition spec_name_included ::
  "(string \<Rightarrow> RegExp option) \<Rightarrow> FilterOptions \<Rightarrow> Definition \<Rightarrow> bool" where
  "spec_name_included newRegExp filterOptions d =
     (case namePattern filterOptions of
        None \<Rightarrow> True
      | Some pat \<Rightarrow> pat = [] \<or>
          (case newRegExp pat of
             None \<Rightarrow> False
           | Some regex \<Rightarrow> test regex (name d) \<or> test regex (lastToken (name d))))"

definition atLeast_opt :: "int option \<Rightarrow> int option \<Rightarrow> bool" where
  "atLeast_opt lim v =
     (case lim of None \<Rightarrow> True | Some l \<Rightarrow> (case v of None \<Rightarrow> False | Some c \<Rightarrow> l \<le> c))"

definition atMost_opt :: "int option \<Rightarrow> int option \<Rightarrow> bool" where
  "atMost_opt lim v =
     (case lim of None \<Rightarrow> True | Some l \<Rightarrow> (case v of None \<Rightarrow> False | Some c \<Rightarrow> c \<le> l))"

definition spec_metrics_allowed :: "FilterOptions \<Rightarrow> Definition \<Rightarrow> bool" where
  "spec_metrics_allowed filterOptions d =
     (atLeast_opt (minComplexity filterOptions) (complexity d)
      \<and> atMost_opt (maxComplexity filterOptions) (complexity d)
      \<and> atLeast_opt (minParameters filterOptions) (parameterCount d)
      \<and> atMost_opt (maxParameters filterOptions) (parameterCount d))"

section \<open>Invariants of the ancestor walk\<close>

text \<open>
  \<open>closedAt\<close>: the parent link of \<open>d\<close> is settled, that is, the parent is included, or
  is not in the list, or is excluded by the walk's name test. \<open>walkInv\<close> is the loop
  invariant: every included definition is settled or still waits on the stack.
  \<open>originInv\<close>: every included id was included at the start or is the id of a parent
  that the name test let through.
\<close>

definition closedAt ::
  "(string \<Rightarrow> RegExp option) \<Rightarrow> FilterOptions \<Rightarrow> Definition list \<Rightarrow> string option list
     \<Rightarrow> Definition \<Rightarrow> bool" where
  "closedAt newRegExp filterOptions definitionsCopy E d =
     (truthy (parentId d) \<longrightarrow>
        parentId d \<in> set E
        \<or> (case find (\<lambda>p. def_id p = parentId d) definitionsCopy of
              None \<Rightarrow> True
            | Some p \<Rightarrow> parentExcluded newRegExp filterOptions p))"

definition walkInv ::
  "(string \<Rightarrow> RegExp option) \<Rightarrow> FilterOptions \<Rightarrow> Definition list \<Rightarrow> walk_state \<Rightarrow> bool"
  where
  "walkInv newRegExp filterOptions definitionsCopy st =
     (case st of (E, P, items) \<Rightarrow>
        set items \<subseteq> set definitionsCopy
        \<and> (\<forall>c \<in> set items. def_id c \<in> set E)
        \<and> (\<forall>s \<in> set P. Some s \<in> set E)
        \<and> (\<forall>d \<in> set definitionsCopy. selected E d \<longrightarrow>
              closedAt newRegExp filterOptions definitionsCopy E d
              \<or> (d \<in> set items \<and> the (def_id d) \<notin> set P)))"


definition originInv ::
  "(string \<Rightarrow> RegExp option) \<Rightarrow> FilterOptions \<Rightarrow> Definition list \<Rightarrow> string option list
     \<Rightarrow> string option list \<Rightarrow> bool" where
  "originInv newRegExp filterOptions definitionsCopy E0 E =
     (\<forall>x \<in> set E. x \<in> set E0
        \<or> (\<exists>p \<in> set definitionsCopy. def_id p = x \<and> \<not> parentExcluded newRegExp filterOptions p))"

section \<open>The forest of a file\<close>

text \<open>
  The specification describes the renderers by a forest. The roots of a file are its
  definitions without \<^verbatim>\<open>parentId\<close> (an empty id counts as none), in the order of the file's
  list. The children of a definition are found from the ids stored in its \<^verbatim>\<open>children\<close>,
  one after the other in stored order: an id stands for the first definition of the list
  that carries it, and an id that no definition carries is passed over.
\<close>

definition storedChildren :: "Definition \<Rightarrow> string list" where
  "storedChildren d = (case children d of None \<Rightarrow> [] | Some cs \<Rightarrow> cs)"

fun spec_lookup :: "Definition list \<Rightarrow> string \<Rightarrow> Definition option" where
  "spec_lookup [] childId = None"
| "spec_lookup (x # xs) childId =
     (if def_id x = Some childId then Some x else spec_lookup xs childId)"

fun spec_resolve :: "Definition list \<Rightarrow> string list \<Rightarrow> Definition list" where
  "spec_resolve definitions [] = []"
| "spec_resolve definitions (childId # ids) =
     (case spec_lookup definitions childId of
        None \<Rightarrow> spec_resolve definitions ids
      | Some c \<Rightarrow> c # spec_resolve definitions ids)"

definition spec_children :: "Definition list \<Rightarrow> Definition \<Rightarrow> Definition list" where
  "spec_children definitions d = spec_resolve definitions (storedChildren d)"

definition spec_roots :: "Definition list \<Rightarrow> Definition list" where
  "spec_roots definitions =
     filter (\<lambda>d. parentId d = None \<or> parentId d = Some []) definitions"

text \<open>
  The tree under a definition, cut off where the fuel ends (\<open>None\<close>), the forest of a file
  and the forests of a map from paths to files.
\<close>

datatype DefTree = DefTree Definition "DefTree list"

fun unfoldTree :: "nat \<Rightarrow> Definition list \<Rightarrow> Definition \<Rightarrow> DefTree option" where
  "unfoldTree 0 definitions d = None"
| "unfoldTree (Suc fuel) definitions d =
     map_option (DefTree d)
       (those (map (unfoldTree fuel definitions) (spec_children definitions d)))"

definition spec_forest :: "nat \<Rightarrow> Definition list \<Rightarrow> DefTree list option" where
  "spec_forest fuel definitions =
     those (map (unfoldTree fuel definitions) (spec_roots definitions))"

definition spec_forests ::
  "nat \<Rightarrow> (string \<times> Definition list) list \<Rightarrow> (string \<times> DefTree list) list option" where
  "spec_forests fuel results =
     those (map (\<lambda>(filePath, definitions).
                   map_option (Pair filePath) (spec_forest fuel definitions))
              results)"

text \<open>The definitions of a tree, a node before its subtrees, the subtrees in order.\<close>

fun treeNodes :: "DefTree \<Rightarrow> Definition list" where
  "treeNodes (DefTree d ts) = d # concat (map treeNodes ts)"

text \<open>
  A forest written in the three formats: every node as the element, line or object of
  its definition, the subtrees inside it (XML, JSON) or after it, one step further
  indented (Markdown), in the order of the tree.
\<close>

fun xmlOfTree :: "DetailLevel \<Rightarrow> DefTree \<Rightarrow> XmlElement" where
  "xmlOfTree detailLevel (DefTree d ts) =
     XmlElement ''Definition'' (xmlAttrs detailLevel d)
       (xmlParameters detailLevel d @ xmlCalls detailLevel d @ map (xmlOfTree detailLevel) ts)"

definition xmlOfForests :: "DetailLevel \<Rightarrow> (string \<times> DefTree list) list \<Rightarrow> XmlElement" where
  "xmlOfForests detailLevel forests =
     XmlElement ''CodeScanResults'' []
       (map (\<lambda>(filePath, ts).
               XmlElement ''File'' [(''path'', Str filePath)] (map (xmlOfTree detailLevel) ts))
          forests)"

fun mdOfTree :: "DetailLevel \<Rightarrow> nat \<Rightarrow> DefTree \<Rightarrow> string" where
  "mdOfTree detailLevel indent (DefTree d ts) =
     indentation indent @ mdLine detailLevel d @ newline
     @ concat (map (mdOfTree detailLevel (indent + 1)) ts)"

definition mdOfForest ::
  "DetailLevel \<Rightarrow> (string \<Rightarrow> string) \<Rightarrow> string \<Rightarrow> DefTree list \<Rightarrow> string" where
  "mdOfForest detailLevel relativeTo filePath ts =
     ''## File: '' @ inlineCode (relativeTo filePath) @ newline @ newline
     @ concat (map (mdOfTree detailLevel 0) ts) @ newline"

definition jsonHead :: "DetailLevel \<Rightarrow> Definition \<Rightarrow> (string \<times> Json) list" where
  "jsonHead detailLevel d =
     jsonScalars [(''type'', Str (def_type d)), (''name'', Str (name d))]
     @ (if detailLevel = minimal then [] else jsonDetails detailLevel d)"

fun jsonOfTree :: "DetailLevel \<Rightarrow> DefTree \<Rightarrow> Json" where
  "jsonOfTree detailLevel (DefTree d ts) =
     JObject (jsonHead detailLevel d
              @ (if storedChildren d = [] then []
                 else [(''children'', JArray (map (jsonOfTree detailLevel) ts))]))"

definition jsonOfForests :: "DetailLevel \<Rightarrow> (string \<times> DefTree list) list \<Rightarrow> Json" where
  "jsonOfForests detailLevel forests =
     JObject (map (\<lambda>(filePath, ts). (filePath, JArray (map (jsonOfTree detailLevel) ts)))
                forests)"

text \<open>
  A definition is reachable when a chain of children leads to it from a root of its file.
\<close>

inductive below :: "Definition list \<Rightarrow> Definition \<Rightarrow> Definition \<Rightarrow> bool"
  for definitions :: "Definition list" where
  below_self: "below definitions r r"
| below_child: "c \<in> set (spec_children definitions r) \<Longrightarrow> below definitions c d
                  \<Longrightarrow> below definitions r d"

definition reachable :: "Definition list \<Rightarrow> Definition \<Rightarrow> bool" where
  "reachable definitions d = (\<exists>r \<in> set (spec_roots definitions). below definitions r d)"

text \<open>
  What a document shows: the attribute lists of the \<^verbatim>\<open>Definition\<close> elements of an XML
  document, in document order, and the objects of a JSON document.
\<close>

fun xmlListed :: "XmlElement \<Rightarrow> (string \<times> Scalar) list list" where
  "xmlListed (XmlElement tg attrs es) =
     (if tg = ''Definition'' then [attrs] else []) @ concat (map xmlListed es)"

fun jsonObjects :: "Json \<Rightarrow> (string \<times> Json) list list" where
  "jsonObjects (JScalar v) = []"
| "jsonObjects (JArray xs) = concat (map jsonObjects xs)"
| "jsonObjects (JObject kvs) = kvs # concat (map (\<lambda>kv. jsonObjects (snd kv)) kvs)"

text \<open>
  No cycle below the definitions \<open>starts\<close>: a rank falls from every definition below one of
  them to each of its children, and stays under the fuel. The Markdown renderer starts
  from every definition of a file that has definitions and no root.
\<close>

definition acyclicFrom ::
  "(Definition \<Rightarrow> nat) \<Rightarrow> nat \<Rightarrow> Definition list \<Rightarrow> Definition list \<Rightarrow> bool" where
  "acyclicFrom rank fuel definitions starts =
     (\<forall>r \<in> set starts. \<forall>x. below definitions r x \<longrightarrow>
        rank x < fuel \<and> (\<forall>c \<in> set (spec_children definitions x). rank c < rank x))"

definition mdStarts :: "Definition list \<Rightarrow> Definition list" where
  "mdStarts definitions =
     (if spec_roots definitions = [] then definitions else spec_roots definitions)"

section \<open>Example definitions and a small pattern engine\<close>

text \<open>
  A fragment of the host's regular expressions, enough to run the filter on examples: a
  pattern without metacharacters matches the strings that contain it, and the pattern
  \<^verbatim>\<open>(\<close> does not compile. Patterns outside this fragment are not used below.
\<close>

fun startsWith :: "string \<Rightarrow> string \<Rightarrow> bool" where
  "startsWith [] s = True"
| "startsWith (p # ps) [] = False"
| "startsWith (p # ps) (c # cs) = (p = c \<and> startsWith ps cs)"

fun str_includes :: "string \<Rightarrow> string \<Rightarrow> bool" where
  "str_includes p [] = (p = [])"
| "str_includes p (c # cs) = (startsWith p (c # cs) \<or> str_includes p cs)"

definition literalRegExp :: "string \<Rightarrow> RegExp option" where
  "literalRegExp pat =
     (if pat = ''('' then None
      else Some (RegExp (str_includes pat) (\<lambda>s. s)))"

definition blankDefinition :: Definition where
  "blankDefinition =
     \<lparr>def_id = None, def_type = [], name = [], startLine = 0, endLine = 0,
      modifier = None, dataType = None, def_value = None, parentId = None,
      children = None, parameters = None, returnType = None, complexity = None,
      parameterCount = None, loc = None, calls = None\<rparr>"

definition noFilter :: FilterOptions where
  "noFilter =
     \<lparr>includeTypes = None, excludeTypes = None, includeModifiers = None,
      excludeModifiers = None, namePattern = None, excludeNamePattern = None,
      maxComplexity = None, minComplexity = None, maxParameters = None,
      minParameters = None\<rparr>"

text \<open>
  Scenario C of the specification, \<^verbatim>\<open>Class{ Method(); } function standaloneFn(){}\<close>, as
  the extractor numbers it (functions, then methods, then classes).
\<close>

definition standaloneFn :: Definition where
  "standaloneFn = blankDefinition
     \<lparr>def_id := Some ''def-0'', def_type := ''function'', name := ''standaloneFn'',
      startLine := 4, endLine := 4, children := Some [], parameters := Some [],
      complexity := Some 1, parameterCount := Some 0, loc := Some 1\<rparr>"

definition Method :: Definition where
  "Method = blankDefinition
     \<lparr>def_id := Some ''def-1'', def_type := ''method'', name := ''Method'',
      startLine := 2, endLine := 2, parentId := Some ''def-2'', children := Some [],
      parameters := Some [], complexity := Some 1, parameterCount := Some 0,
      loc := Some 1\<rparr>"

definition Class :: Definition where
  "Class = blankDefinition
     \<lparr>def_id := Some ''def-2'', def_type := ''class'', name := ''Class'',
      startLine := 1, endLine := 3, children := Some [''def-1''],
      complexity := Some 1, parameterCount := Some 0, loc := Some 3\<rparr>"

definition scenarioC :: "Definition list" where
  "scenarioC = [standaloneFn, Method, Class]"

text \<open>
  A class nested in a class, with one method:
  \<^verbatim>\<open>class Outer { class Inner { void Run() { } } }\<close> on five lines.
\<close>

definition Outer :: Definition where
  "Outer = blankDefinition
     \<lparr>def_id := Some ''def-0'', def_type := ''class'', name := ''Outer'',
      startLine := 1, endLine := 5, children := Some [''def-1''],
      complexity := Some 1, parameterCount := Some 0, loc := Some 5\<rparr>"

definition Inner :: Definition where
  "Inner = blankDefinition
     \<lparr>def_id := Some ''def-1'', def_type := ''class'', name := ''Inner'',
      startLine := 2, endLine := 4, parentId := Some ''def-0'', children := Some [''def-2''],
      complexity := Some 1, parameterCount := Some 0, loc := Some 3\<rparr>"

definition Run :: Definition where
  "Run = blankDefinition
     \<lparr>def_id := Some ''def-2'', def_type := ''method'', name := ''Run'',
      startLine := 3, endLine := 3, parentId := Some ''def-1'', children := Some [],
      complexity := Some 1, parameterCount := Some 0, loc := Some 1\<rparr>"

definition nested :: "Definition list" where
  "nested = [Outer, Inner, Run]"

definition methodsOnly :: FilterOptions where
  "methodsOnly = noFilter\<lparr>includeTypes := Some [''method'']\<rparr>"

definition methodsNotInner :: FilterOptions where
  "methodsNotInner = noFilter\<lparr>includeTypes := Some [''method''], excludeNamePattern := Some ''Inner''\<rparr>"

text \<open>The same list with a synthetic error entry, which carries no id.\<close>

definition parseError :: Definition where
  "parseError = blankDefinition
     \<lparr>def_type := ''error'', name := ''Failed to parse Outer.cs'', startLine := 0, endLine := 0\<rparr>"

definition nestedWithError :: "Definition list" where
  "nestedWithError = nested @ [parseError]"

section \<open>Example syntax trees\<close>

text \<open>
  The tree of \<^verbatim>\<open>function add(a, b) { return a + b; }\<close>, cut down to the nodes the
  metric looks at: a binary expression whose operator is \<^verbatim>\<open>+\<close>.
\<close>

definition add_body :: SyntaxNode where
  "add_body =
     SyntaxNode ''binary_expression'' None ''a + b'' (0, 28) (0, 33)
       [SyntaxNode ''identifier'' (Some ''left'') ''a'' (0, 28) (0, 29) [],
        SyntaxNode ''+'' (Some ''operator'') ''+'' (0, 30) (0, 31) [],
        SyntaxNode ''identifier'' (Some ''right'') ''b'' (0, 32) (0, 33) []]"

definition add_function :: SyntaxNode where
  "add_function =
     SyntaxNode ''function_declaration'' None ''function add(a, b) { return a + b; }''
       (0, 0) (0, 36)
       [SyntaxNode ''identifier'' (Some ''name'') ''add'' (0, 9) (0, 12) [],
        SyntaxNode ''formal_parameters'' (Some ''parameters'') ''(a, b)'' (0, 12) (0, 18) [],
        SyntaxNode ''statement_block'' (Some ''body'') ''{ return a + b; }'' (0, 19) (0, 36)
          [SyntaxNode ''return_statement'' None ''return a + b;'' (0, 21) (0, 34) [add_body]]]"

text \<open>
  A method whose body is \<^verbatim>\<open>if (a && b) { } else if (a + b) { }\<close>: two conditionals,
  one logical operator and one arithmetic operator.
\<close>

definition guarded_method :: SyntaxNode where
  "guarded_method =
     SyntaxNode ''method_definition'' None ''m() { if (a && b) { } else if (a + b) { } }''
       (1, 2) (1, 45)
       [SyntaxNode ''if_statement'' None ''if (a && b) { } else if (a + b) { }'' (1, 8) (1, 43)
          [SyntaxNode ''binary_expression'' (Some ''condition'') ''a && b'' (1, 12) (1, 18)
             [SyntaxNode ''identifier'' (Some ''left'') ''a'' (1, 12) (1, 13) [],
              SyntaxNode ''&&'' (Some ''operator'') ''&&'' (1, 14) (1, 16) [],
              SyntaxNode ''identifier'' (Some ''right'') ''b'' (1, 17) (1, 18) []],
           SyntaxNode ''if_statement'' (Some ''alternative'') ''if (a + b) { }'' (1, 29) (1, 43)
             [add_body]]]"

section \<open>An example host\<close>

definition exampleExtname :: "string \<Rightarrow> string" where
  "exampleExtname p =
     (let parts = js_split CHR ''.'' p
      in if length parts < 2 then [] else CHR ''.'' # last parts)"

text \<open>
  A small query engine: the \<^verbatim>\<open>function\<close> query captures every function declaration
  of the subtree with its name and parameter block, the \<^verbatim>\<open>call\<close> query every call
  expression with the identifier it calls; any other query throws.
\<close>

definition functionCaptures :: "SyntaxNode \<Rightarrow> capture list" where
  "functionCaptures n =
     (''function'', n)
     # (case childForFieldName n ''name'' of None \<Rightarrow> [] | Some c \<Rightarrow> [(''name'', c)])
     @ (case childForFieldName n ''parameters'' of None \<Rightarrow> [] | Some c \<Rightarrow> [(''params'', c)])"

definition callCaptures :: "SyntaxNode \<Rightarrow> capture list" where
  "callCaptures n =
     (''call'', n)
     # (case childForFieldName n ''function'' of None \<Rightarrow> [] | Some c \<Rightarrow> [(''call_name'', c)])"

definition exampleMatches :: "string \<Rightarrow> string \<Rightarrow> SyntaxNode \<Rightarrow> capture list list option" where
  "exampleMatches language queryStr node =
     (if queryStr = ''function-query''
      then Some (map functionCaptures
                   (filter (\<lambda>n. node_type n = ''function_declaration'') (subtree node)))
      else if queryStr = ''call-query''
      then Some (map callCaptures
                   (filter (\<lambda>n. node_type n = ''call_expression'') (subtree node)))
      else None)"

definition exampleCaptures :: "string \<Rightarrow> string \<Rightarrow> SyntaxNode \<Rightarrow> capture list option" where
  "exampleCaptures language queryStr node =
     Some (map (\<lambda>c. (''param_name'', c))
             (filter (\<lambda>n. node_type n = ''identifier'') (node_children node)))"

text \<open>
  \<^verbatim>\<open>function f() {} function g() {\<close>, \<^verbatim>\<open>}\<close>: two functions that start on the same line, the
  second ending on the next.
\<close>

definition two_functions :: SyntaxNode where
  "two_functions =
     SyntaxNode ''program'' None [] (0, 0) (1, 1)
       [SyntaxNode ''function_declaration'' None ''function f() {}'' (0, 0) (0, 15)
          [SyntaxNode ''function'' None ''function'' (0, 0) (0, 8) [],
           SyntaxNode ''identifier'' (Some ''name'') ''f'' (0, 9) (0, 10) [],
           SyntaxNode ''formal_parameters'' (Some ''parameters'') ''()'' (0, 10) (0, 12) [],
           SyntaxNode ''statement_block'' (Some ''body'') ''{}'' (0, 13) (0, 15) []],
        SyntaxNode ''function_declaration'' None ''function g() {}'' (0, 16) (1, 1)
          [SyntaxNode ''function'' None ''function'' (0, 16) (0, 24) [],
           SyntaxNode ''identifier'' (Some ''name'') ''g'' (0, 25) (0, 26) [],
           SyntaxNode ''formal_parameters'' (Some ''parameters'') ''()'' (0, 26) (0, 28) [],
           SyntaxNode ''statement_block'' (Some ''body'') ''{}'' (0, 29) (1, 1) []]]"

text \<open>\<^verbatim>\<open>function f() { g(); h(); g(); }\<close>\<close>

definition caller :: SyntaxNode where
  "caller =
     SyntaxNode ''program'' None [] (0, 0) (0, 31)
       [SyntaxNode ''function_declaration'' None ''function f() { g(); h(); g(); }'' (0, 0) (0, 31)
          [SyntaxNode ''function'' None ''function'' (0, 0) (0, 8) [],
           SyntaxNode ''identifier'' (Some ''name'') ''f'' (0, 9) (0, 10) [],
           SyntaxNode ''formal_parameters'' (Some ''parameters'') ''()'' (0, 10) (0, 12) [],
           SyntaxNode ''statement_block'' (Some ''body'') ''{ g(); h(); g(); }'' (0, 13) (0, 31)
             [SyntaxNode ''call_expression'' None ''g()'' (0, 15) (0, 18)
                [SyntaxNode ''identifier'' (Some ''function'') ''g'' (0, 15) (0, 16) []],
              SyntaxNode ''call_expression'' None ''h()'' (0, 20) (0, 23)
                [SyntaxNode ''identifier'' (Some ''function'') ''h'' (0, 20) (0, 21) []],
              SyntaxNode ''call_expression'' None ''g()'' (0, 25) (0, 28)
                [SyntaxNode ''identifier'' (Some ''function'') ''g'' (0, 25) (0, 26) []]]]]"

text \<open>
  \<^verbatim>\<open>function outer() {\<close>, \<^verbatim>\<open>  function inner() {}\<close>, \<^verbatim>\<open>}\<close> on three lines.
\<close>

definition nested_functions :: SyntaxNode where
  "nested_functions =
     SyntaxNode ''program'' None [] (0, 0) (2, 1)
       [SyntaxNode ''function_declaration'' None ''function outer() { function inner() {} }''
          (0, 0) (2, 1)
          [SyntaxNode ''function'' None ''function'' (0, 0) (0, 8) [],
           SyntaxNode ''identifier'' (Some ''name'') ''outer'' (0, 9) (0, 14) [],
           SyntaxNode ''formal_parameters'' (Some ''parameters'') ''()'' (0, 14) (0, 16) [],
           SyntaxNode ''statement_block'' (Some ''body'') ''{ function inner() {} }'' (0, 17) (2, 1)
             [SyntaxNode ''function_declaration'' None ''function inner() {}'' (1, 2) (1, 21)
                [SyntaxNode ''function'' None ''function'' (1, 2) (1, 10) [],
                 SyntaxNode ''identifier'' (Some ''name'') ''inner'' (1, 11) (1, 16) [],
                 SyntaxNode ''formal_parameters'' (Some ''parameters'') ''()'' (1, 16) (1, 18) [],
                 SyntaxNode ''statement_block'' (Some ''body'') ''{}'' (1, 19) (1, 21) []]]]]"

definition exampleParse :: "string \<Rightarrow> string \<Rightarrow> SyntaxNode option" where
  "exampleParse language code =
     (if code = ''two functions'' then Some two_functions
      else if code = ''caller'' then Some caller
      else if code = ''nested functions'' then Some nested_functions
      else None)"

definition exampleHost :: host where
  "exampleHost =
     \<lparr>extname = exampleExtname,
      languageMap = (\<lambda>ext. if ext = ''.js'' \<or> ext = ''.jsx'' then Some ''javascript'' else None),
      queries = (\<lambda>ext. if ext = ''.js''
                        then Some [(''function'', ''function-query''), (''enum'', []),
                                   (''call'', ''call-query'')]
                        else None),
      parse = exampleParse,
      matches = exampleMatches,
      captures = exampleCaptures,
      isSelf = (\<lambda>p. False),
      signatureReturnType = (\<lambda>code node. None),
      fallbackParameter = (\<lambda>piece. \<lparr>param_name = piece, param_type = None\<rparr>),
      readFile = (\<lambda>p. if p = ''missing.js'' then Inl ''ENOENT''
                       else Inr (takeWhile (\<lambda>c. c \<noteq> CHR ''.'') p)),
      resolve = (\<lambda>directory. directory),
      relative = (\<lambda>directory p. p)\<rparr>"

text \<open>
  \<^verbatim>\<open>function pick(a, b) { return a ? b : 0; }\<close> in the TypeScript grammar: the ternary is a
  node of type \<^verbatim>\<open>ternary_expression\<close>.
\<close>

definition pick_ternary :: SyntaxNode where
  "pick_ternary =
     SyntaxNode ''ternary_expression'' None ''a ? b : 0'' (0, 29) (0, 38)
       [SyntaxNode ''identifier'' (Some ''condition'') ''a'' (0, 29) (0, 30) [],
        SyntaxNode ''?'' None ''?'' (0, 31) (0, 32) [],
        SyntaxNode ''identifier'' (Some ''consequence'') ''b'' (0, 33) (0, 34) [],
        SyntaxNode '':'' None '':'' (0, 35) (0, 36) [],
        SyntaxNode ''number'' (Some ''alternative'') ''0'' (0, 37) (0, 38) []]"

definition pick_function :: SyntaxNode where
  "pick_function =
     SyntaxNode ''function_declaration'' None ''function pick(a, b) { return a ? b : 0; }''
       (0, 0) (0, 41)
       [SyntaxNode ''function'' None ''function'' (0, 0) (0, 8) [],
        SyntaxNode ''identifier'' (Some ''name'') ''pick'' (0, 9) (0, 13) [],
        SyntaxNode ''formal_parameters'' (Some ''parameters'') ''(a, b)'' (0, 13) (0, 19)
          [SyntaxNode ''required_parameter'' None ''a'' (0, 14) (0, 15)
             [SyntaxNode ''identifier'' (Some ''pattern'') ''a'' (0, 14) (0, 15) []],
           SyntaxNode ''required_parameter'' None ''b'' (0, 17) (0, 18)
             [SyntaxNode ''identifier'' (Some ''pattern'') ''b'' (0, 17) (0, 18) []]],
        SyntaxNode ''statement_block'' (Some ''body'') ''{ return a ? b : 0; }'' (0, 20) (0, 41)
          [SyntaxNode ''return_statement'' None ''return a ? b : 0;'' (0, 22) (0, 39)
             [pick_ternary]]]"

definition pick :: SyntaxNode where
  "pick = SyntaxNode ''program'' None [] (0, 0) (0, 41) [pick_function]"

text \<open>
  \<^verbatim>\<open>function f() { function g() { function h() {\<close>, \<^verbatim>\<open>} } }\<close>: three functions that start
  on the first line and end on the second.
\<close>

definition h_function :: SyntaxNode where
  "h_function =
     SyntaxNode ''function_declaration'' None ''function h() {}'' (0, 30) (1, 1)
       [SyntaxNode ''function'' None ''function'' (0, 30) (0, 38) [],
        SyntaxNode ''identifier'' (Some ''name'') ''h'' (0, 39) (0, 40) [],
        SyntaxNode ''formal_parameters'' (Some ''parameters'') ''()'' (0, 40) (0, 42) [],
        SyntaxNode ''statement_block'' (Some ''body'') ''{}'' (0, 43) (1, 1) []]"

definition g_function :: SyntaxNode where
  "g_function =
     SyntaxNode ''function_declaration'' None ''function g() { function h() {} }'' (0, 15) (1, 3)
       [SyntaxNode ''function'' None ''function'' (0, 15) (0, 23) [],
        SyntaxNode ''identifier'' (Some ''name'') ''g'' (0, 24) (0, 25) [],
        SyntaxNode ''formal_parameters'' (Some ''parameters'') ''()'' (0, 25) (0, 27) [],
        SyntaxNode ''statement_block'' (Some ''body'') ''{ function h() {} }'' (0, 28) (1, 3)
          [h_function]]"

definition three_functions :: SyntaxNode where
  "three_functions =
     SyntaxNode ''program'' None [] (0, 0) (1, 5)
       [SyntaxNode ''function_declaration'' None
          ''function f() { function g() { function h() {} } }'' (0, 0) (1, 5)
          [SyntaxNode ''function'' None ''function'' (0, 0) (0, 8) [],
           SyntaxNode ''identifier'' (Some ''name'') ''f'' (0, 9) (0, 10) [],
           SyntaxNode ''formal_parameters'' (Some ''parameters'') ''()'' (0, 10) (0, 12) [],
           SyntaxNode ''statement_block'' (Some ''body'')
             ''{ function g() { function h() {} } }'' (0, 13) (1, 5)
             [g_function]]]"

text \<open>
  \<^verbatim>\<open>function outer() {\<close>, \<^verbatim>\<open>  class Local {}\<close>, \<^verbatim>\<open>  function helper() {}\<close>, \<^verbatim>\<open>}\<close> on four
  lines: a function that holds a class and, after it, a function.
\<close>

definition scopes :: SyntaxNode where
  "scopes =
     SyntaxNode ''program'' None [] (0, 0) (3, 1)
       [SyntaxNode ''function_declaration'' None
          ''function outer() { class Local {} function helper() {} }'' (0, 0) (3, 1)
          [SyntaxNode ''function'' None ''function'' (0, 0) (0, 8) [],
           SyntaxNode ''identifier'' (Some ''name'') ''outer'' (0, 9) (0, 14) [],
           SyntaxNode ''formal_parameters'' (Some ''parameters'') ''()'' (0, 14) (0, 16) [],
           SyntaxNode ''statement_block'' (Some ''body'')
             ''{ class Local {} function helper() {} }'' (0, 17) (3, 1)
             [SyntaxNode ''class_declaration'' None ''class Local {}'' (1, 2) (1, 16)
                [SyntaxNode ''class'' None ''class'' (1, 2) (1, 7) [],
                 SyntaxNode ''type_identifier'' (Some ''name'') ''Local'' (1, 8) (1, 13) [],
                 SyntaxNode ''class_body'' (Some ''body'') ''{}'' (1, 14) (1, 16) []],
              SyntaxNode ''function_declaration'' None ''function helper() {}'' (2, 2) (2, 22)
                [SyntaxNode ''function'' None ''function'' (2, 2) (2, 10) [],
                 SyntaxNode ''identifier'' (Some ''name'') ''helper'' (2, 11) (2, 17) [],
                 SyntaxNode ''formal_parameters'' (Some ''parameters'') ''()'' (2, 17) (2, 19) [],
                 SyntaxNode ''statement_block'' (Some ''body'') ''{}'' (2, 20) (2, 22) []]]]]"

text \<open>
  A host for TypeScript files. The query set is the one of the program for \<^verbatim>\<open>.ts\<close>, in
  its key order; the three queries that span several lines are named instead of quoted.
  A query of the form \<^verbatim>\<open>(T name: (_) @name) @c\<close> matches every node of type \<^verbatim>\<open>T\<close> that has
  a child under the field \<^verbatim>\<open>name\<close>, and captures the node as \<^verbatim>\<open>c\<close> and the child as
  \<^verbatim>\<open>name\<close>. The other queries look for variables, properties, enum members and calls,
  which the example files do not hold. No query of the set captures a parameter block,
  and no signature of the examples ends in a return type.
\<close>

definition tsQueries :: "(string \<times> string) list" where
  "tsQueries =
     [(''function'', ''(function_declaration name: (_) @name) @function''),
      (''method'', ''(method_definition name: (_) @name) @method''),
      (''class'', ''(class_declaration name: (_) @name) @class''),
      (''interface'', ''(interface_declaration name: (_) @name) @interface''),
      (''variable'', ''variable-query''),
      (''property'', ''property-query''),
      (''enum'', ''(enum_declaration name: (identifier) @name) @enum''),
      (''enumMember'',
       ''(enum_assignment name: (property_identifier) @name value: (_)? @value) @enumMember''),
      (''call'', ''call-query'')]"

definition declarationPattern :: "string \<Rightarrow> (string \<times> string) option" where
  "declarationPattern queryStr =
     map_of
       [(''(function_declaration name: (_) @name) @function'',
         (''function_declaration'', ''function'')),
        (''(method_definition name: (_) @name) @method'', (''method_definition'', ''method'')),
        (''(class_declaration name: (_) @name) @class'', (''class_declaration'', ''class'')),
        (''(interface_declaration name: (_) @name) @interface'',
         (''interface_declaration'', ''interface'')),
        (''(enum_declaration name: (identifier) @name) @enum'',
         (''enum_declaration'', ''enum''))]
       queryStr"

definition tsMatches :: "string \<Rightarrow> string \<Rightarrow> SyntaxNode \<Rightarrow> capture list list option" where
  "tsMatches language queryStr node =
     (case declarationPattern queryStr of
        None \<Rightarrow> Some []
      | Some (ty, cap) \<Rightarrow>
          Some (List.map_filter
                  (\<lambda>n. if node_type n = ty
                       then map_option (\<lambda>c. [(cap, n), (''name'', c)])
                              (childForFieldName n ''name'')
                       else None)
                  (subtree node)))"

definition tsParse :: "string \<Rightarrow> string \<Rightarrow> SyntaxNode option" where
  "tsParse language code =
     map_of [(''two functions'', two_functions), (''three functions'', three_functions),
             (''nested functions'', nested_functions), (''scopes'', scopes),
             (''pick'', pick)] code"

definition tsHost :: host where
  "tsHost =
     \<lparr>extname = exampleExtname,
      languageMap = (\<lambda>ext. if ext = ''.ts'' then Some ''typescript''
                           else if ext = ''.tsx'' then Some ''tsx'' else None),
      queries = (\<lambda>ext. if ext = ''.ts'' then Some tsQueries else None),
      parse = tsParse,
      matches = tsMatches,
      captures = (\<lambda>language queryStr node. Some []),
      isSelf = (\<lambda>p. False),
      signatureReturnType = (\<lambda>code node. None),
      fallbackParameter = (\<lambda>piece. \<lparr>param_name = piece, param_type = None\<rparr>),
      readFile = (\<lambda>p. Inr (takeWhile (\<lambda>c. c \<noteq> CHR ''.'') p)),
      resolve = (\<lambda>directory. directory),
      relative = (\<lambda>directory p. p)\<rparr>"

text \<open>
  The scan of the two TypeScript files \<^verbatim>\<open>scopes.ts\<close> and \<^verbatim>\<open>three functions.ts\<close> without a
  filter, as the filter leaves it: each file sorted by start line. In the first file
  \<open>outer\<close> holds its children in the order in which the extractor linked them, the
  function before the class. In the second file every definition has a parent, and \<open>f\<close>
  and \<open>g\<close> are each other's parent. \<open>lineSpan\<close> is the number of lines of a definition
  after its first.
\<close>

definition outerDef :: Definition where
  "outerDef = blankDefinition
     \<lparr>def_id := Some ''def-0'', def_type := ''function'', name := ''outer'',
      startLine := 1, endLine := 4, children := Some [''def-1'', ''def-2''],
      complexity := Some 1, parameterCount := Some 0, loc := Some 4\<rparr>"

definition helperDef :: Definition where
  "helperDef = blankDefinition
     \<lparr>def_id := Some ''def-1'', def_type := ''function'', name := ''helper'',
      startLine := 3, endLine := 3, parentId := Some ''def-0'', children := Some [],
      complexity := Some 1, parameterCount := Some 0, loc := Some 1\<rparr>"

definition localDef :: Definition where
  "localDef = blankDefinition
     \<lparr>def_id := Some ''def-2'', def_type := ''class'', name := ''Local'',
      startLine := 2, endLine := 2, parentId := Some ''def-0'', children := Some [],
      complexity := Some 1, parameterCount := Some 0, loc := Some 1\<rparr>"

definition scopesFile :: "Definition list" where
  "scopesFile = [outerDef, localDef, helperDef]"

definition fDef :: Definition where
  "fDef = blankDefinition
     \<lparr>def_id := Some ''def-0'', def_type := ''function'', name := ''f'',
      startLine := 1, endLine := 2, parentId := Some ''def-1'',
      children := Some [''def-1'', ''def-2''],
      complexity := Some 1, parameterCount := Some 0, loc := Some 2\<rparr>"

definition gDef :: Definition where
  "gDef = blankDefinition
     \<lparr>def_id := Some ''def-1'', def_type := ''function'', name := ''g'',
      startLine := 1, endLine := 2, parentId := Some ''def-0'', children := Some [''def-0''],
      complexity := Some 1, parameterCount := Some 0, loc := Some 2\<rparr>"

definition hDef :: Definition where
  "hDef = blankDefinition
     \<lparr>def_id := Some ''def-2'', def_type := ''function'', name := ''h'',
      startLine := 1, endLine := 2, parentId := Some ''def-0'', children := Some [],
      complexity := Some 1, parameterCount := Some 0, loc := Some 2\<rparr>"

definition cyclicFile :: "Definition list" where
  "cyclicFile = [fDef, gDef, hDef]"

definition scopesMap :: "(string \<times> Definition list) list" where
  "scopesMap = [(''scopes.ts'', scopesFile)]"

definition twoFiles :: "(string \<times> Definition list) list" where
  "twoFiles = [(''scopes.ts'', scopesFile), (''three functions.ts'', cyclicFile)]"

definition lineSpan :: "Definition \<Rightarrow> nat" where
  "lineSpan d = nat (endLine d - startLine d)"

definition callerMatch :: "capture list" where
  "callerMatch = functionCaptures (hd (node_children caller))"

definition jsQueries :: "(string \<times> string) list" where
  "jsQueries = [(''function'', ''function-query''), (''enum'', []), (''call'', ''call-query'')]"

section \<open>Properties of the complexity metric\<close>

lemma visit_counted:
  "visit n c = (if counted n then c + 1 else c)"
  by (auto simp: visit_def counted_def logicalOperators_def Let_def split: option.splits)

lemma fold_traverse_count:
  assumes "\<And>x c. x \<in> set cs \<Longrightarrow>
             traverse x c = c + int (length (filter counted (subtree x)))"
  shows "fold traverse cs c =
           c + int (length (filter counted (concat (map subtree cs))))"
  using assms by (induction cs arbitrary: c) auto

lemma traverse_count:
  "traverse n c = c + int (length (filter counted (subtree n)))"
proof (induction n arbitrary: c)
  case (SyntaxNode ty fl tx sp ep cs)
  have "fold traverse cs (visit (SyntaxNode ty fl tx sp ep cs) c) =
          visit (SyntaxNode ty fl tx sp ep cs) c
          + int (length (filter counted (concat (map subtree cs))))"
    by (rule fold_traverse_count) (rule SyntaxNode.IH)
  then show ?case
    by (simp add: visit_counted)
qed

text \<open>
  Every node that the metric counts is a decision point in the specification's words;
  the converse fails, see C6.
\<close>

lemma counted_spec: "counted n \<Longrightarrow> spec_decision_point n"
  by (auto simp: counted_def spec_decision_point_def decisionPointTypes_def constructOf_def)

text \<open>
  C5. The computed complexity is at least 1 for every input (also for no node at all),
  and it is exactly 1 when no node of the subtree is one that the metric counts: a node
  of a listed type, a binary expression or boolean operator only with a logical operator.
  So it is exactly 1 when no node is a decision point in the specification's words.
\<close>

theorem complexity_floor:
  "1 \<le> calculateComplexity node
   \<and> ((\<forall>m \<in> set (subtree n). \<not> counted m)
        \<longrightarrow> calculateComplexity (Some n) = 1)
   \<and> ((\<forall>m \<in> set (subtree n). \<not> spec_decision_point m)
        \<longrightarrow> calculateComplexity (Some n) = 1)"
proof -
  have "1 \<le> calculateComplexity node"
    by (cases node) (simp_all add: calculateComplexity_def traverse_count)
  moreover have one: "calculateComplexity (Some n) = 1"
    if "\<forall>m \<in> set (subtree n). \<not> counted m"
  proof -
    from that have "filter counted (subtree n) = []"
      by (simp add: filter_empty_conv)
    then show ?thesis
      by (simp add: calculateComplexity_def traverse_count)
  qed
  moreover have "calculateComplexity (Some n) = 1"
    if "\<forall>m \<in> set (subtree n). \<not> spec_decision_point m"
    using that by (intro one) (blast dest: counted_spec)
  ultimately show ?thesis by blast
qed

theorem complexity_floor_witness:
  "list_all (\<lambda>m. \<not> counted m) (subtree add_function)
   \<and> list_all (\<lambda>m. \<not> spec_decision_point m) (subtree add_function)
   \<and> calculateComplexity (Some add_function) = 1
   \<and> 1 \<le> calculateComplexity None"
proof -
  have h: "\<forall>m \<in> set (subtree add_function). \<not> counted m"
    by (simp add: add_function_def add_body_def counted_def decisionPointTypes_def
        childForFieldName_def logicalOperators_def)
  have h': "list_all (\<lambda>m. \<not> spec_decision_point m) (subtree add_function)"
    by code_simp
  from h h' complexity_floor [of None add_function] show ?thesis
    by (simp add: list_all_iff)
qed

text \<open>
  What the metric computes: 1 plus the number of nodes of the subtree that it counts.
  The half of C6 on operators holds: a binary expression or boolean operator is counted
  exactly when its operator is \<^verbatim>\<open>&&\<close>, \<^verbatim>\<open>||\<close>, \<^verbatim>\<open>and\<close> or \<^verbatim>\<open>or\<close>.
\<close>

lemma calculateComplexity_counted:
  "calculateComplexity (Some n) = 1 + int (length (filter counted (subtree n)))"
  by (simp add: calculateComplexity_def traverse_count)

lemma operator_counted:
  assumes "node_type n = ''binary_expression'' \<or> node_type n = ''boolean_operator''"
  shows "visit n c = (if spec_decision_point n then c + 1 else c)"
  using assms
  by (auto simp: visit_counted counted_def spec_decision_point_def decisionPointTypes_def)

lemma guarded_method_complexity:
  "calculateComplexity (Some guarded_method) = 4
   \<and> length (filter spec_decision_point (subtree guarded_method)) = 3
   \<and> \<not> spec_decision_point add_body"
  by code_simp

text \<open>
  C6. The other half fails on the trees of the shipped grammars. In
  \<^verbatim>\<open>function pick(a, b) { return a ? b : 0; }\<close> the ternary is a decision point, and the
  metric gives 1, not 2: the list \<^verbatim>\<open>decisionPointTypes\<close> names the ternary
  \<^verbatim>\<open>conditional_expression\<close>, which is its name in other grammars. The scan of the file
  reports this complexity. In the same way a \<^verbatim>\<open>do\<close> loop, and in Python an \<^verbatim>\<open>elif\<close> and an
  \<^verbatim>\<open>except\<close> branch, are decision points that the metric does not count.
\<close>

theorem complexity_misses_ternary:
  "spec_decision_point pick_ternary
   \<and> pick_ternary \<in> set (subtree pick_function)
   \<and> 1 + int (length (filter spec_decision_point (subtree pick_function))) = 2
   \<and> calculateComplexity (Some pick_function) = 1
   \<and> map (\<lambda>d. (name d, complexity d)) (parseCodeWithTreeSitter tsHost ''pick'' ''pick.ts'')
       = [(''pick'', Some 1)]
   \<and> list_all (\<lambda>ty. spec_decision_point (SyntaxNode ty None [] (0, 0) (0, 0) [])
                    \<and> calculateComplexity (Some (SyntaxNode ty None [] (0, 0) (0, 0) [])) = 1)
        [''ternary_expression'', ''do_statement'', ''elif_clause'', ''except_clause'']"
  by code_simp

section \<open>Properties of the filter engine\<close>

declare ancestorWalk.simps [simp del]

lemma walkStep_cong:
  assumes "\<And>p. parentExcluded R o1 p = parentExcluded R o2 p"
  shows "walkStep R o1 defs st = walkStep R o2 defs st"
  by (simp add: walkStep_def assms cong: option.case_cong if_cong)

lemma ancestorWalk_cong:
  assumes "\<And>p. parentExcluded R o1 p = parentExcluded R o2 p"
  shows "ancestorWalk R o1 defs st = ancestorWalk R o2 defs st"
  using assms
proof (induction R o1 defs st rule: ancestorWalk.induct)
  case (1 R o1 defs E P items)
  show ?case
  proof (cases "items = []")
    case True
    then show ?thesis by (simp add: ancestorWalk.simps)
  next
    case False
    have step: "walkStep R o2 defs (E, P, items) = walkStep R o1 defs (E, P, items)"
      by (rule walkStep_cong) (simp add: "1.prems")
    have "ancestorWalk R o1 defs (walkStep R o1 defs (E, P, items))
            = ancestorWalk R o2 defs (walkStep R o1 defs (E, P, items))"
      using False "1.prems" by (rule "1.IH")
    with False step show ?thesis
      by (simp add: ancestorWalk.simps)
  qed
qed

lemma basicFilter_invalid_namePattern:
  assumes "newRegExp pat = None" "pat \<noteq> []"
  shows "\<not> basicFilter newRegExp (opts\<lparr>namePattern := Some pat\<rparr>) d"
  using assms by (simp add: basicFilter_def Let_def)

lemma basicFilter_invalid_exclude:
  assumes "newRegExp pat = None"
  shows "basicFilter newRegExp (opts\<lparr>excludeNamePattern := Some pat\<rparr>) d
         = basicFilter newRegExp (opts\<lparr>excludeNamePattern := None\<rparr>) d"
  using assms by (simp add: basicFilter_def Let_def)

lemma parentExcluded_invalid:
  assumes "newRegExp pat = None"
  shows "parentExcluded newRegExp (opts\<lparr>excludeNamePattern := Some pat\<rparr>) d
         = parentExcluded newRegExp (opts\<lparr>excludeNamePattern := None\<rparr>) d"
  using assms by (simp add: parentExcluded_def)

lemma new_Set_Nil [simp]: "new_Set [] = []"
  by (simp add: new_Set_def)

lemma ancestorWalk_Nil [simp]: "ancestorWalk R opts defs (E, P, []) = E"
  by (simp add: ancestorWalk.simps)

lemma survivorIds_cong:
  assumes "\<And>d. basicFilter R o1 d = basicFilter R o2 d"
    and "\<And>p. parentExcluded R o1 p = parentExcluded R o2 p"
  shows "survivorIds R defs o1 = survivorIds R defs o2"
  by (simp add: survivorIds_def assms(1) ancestorWalk_cong [OF assms(2)])

text \<open>
  The basic filter is the conjunction of the conditions of the configuration.
\<close>

lemma kind_branch:
  "spec_kind_allowed opts d =
     (\<not> (case includeTypes opts of None \<Rightarrow> False | Some ts \<Rightarrow> ts \<noteq> [] \<and> def_type d \<notin> set ts)
      \<and> \<not> (case excludeTypes opts of None \<Rightarrow> False | Some ts \<Rightarrow> ts \<noteq> [] \<and> def_type d \<in> set ts))"
  by (auto simp: spec_kind_allowed_def split: option.splits)

lemma modifier_branch:
  "spec_modifier_allowed opts d =
     (\<not> (case includeModifiers opts of None \<Rightarrow> False
          | Some ms \<Rightarrow> ms \<noteq> [] \<and>
              (\<not> truthy (modifier d)
               \<or> \<not> (\<exists>incMod \<in> set ms. incMod \<in> set (case modifier d of None \<Rightarrow> []
                                                     | Some m \<Rightarrow> js_split CHR '' '' m))))
      \<and> \<not> (case excludeModifiers opts of None \<Rightarrow> False
          | Some ms \<Rightarrow> ms \<noteq> [] \<and>
              (truthy (modifier d)
               \<and> (\<exists>exMod \<in> set ms. exMod \<in> set (case modifier d of None \<Rightarrow> []
                                                   | Some m \<Rightarrow> js_split CHR '' '' m)))))"
  by (auto simp: spec_modifier_allowed_def modifierTokens_def truthy_def split: option.splits)

lemma name_branch:
  "spec_name_included R opts d =
     (\<not> (case namePattern opts of None \<Rightarrow> False
          | Some pat \<Rightarrow> pat \<noteq> [] \<and>
              (case R pat of
                 None \<Rightarrow> True
               | Some regex \<Rightarrow> \<not> test regex (lastToken (name d)) \<and> \<not> test regex (name d))))"
  by (auto simp: spec_name_included_def split: option.splits)

lemma metrics_branch:
  "spec_metrics_allowed opts d =
     (\<not> (case minComplexity opts of None \<Rightarrow> False
          | Some lim \<Rightarrow> (case complexity d of None \<Rightarrow> True | Some c \<Rightarrow> c < lim))
      \<and> \<not> (case maxComplexity opts of None \<Rightarrow> False
          | Some lim \<Rightarrow> (case complexity d of None \<Rightarrow> True | Some c \<Rightarrow> c > lim))
      \<and> \<not> (case minParameters opts of None \<Rightarrow> False
          | Some lim \<Rightarrow> (case parameterCount d of None \<Rightarrow> True | Some c \<Rightarrow> c < lim))
      \<and> \<not> (case maxParameters opts of None \<Rightarrow> False
          | Some lim \<Rightarrow> (case parameterCount d of None \<Rightarrow> True | Some c \<Rightarrow> c > lim)))"
  by (auto simp: spec_metrics_allowed_def atLeast_opt_def atMost_opt_def split: option.splits)

lemma basicFilter_conditions:
  "basicFilter R opts d =
     (spec_kind_allowed opts d \<and> spec_modifier_allowed opts d
      \<and> spec_name_included R opts d \<and> \<not> spec_name_excluded R opts d
      \<and> spec_metrics_allowed opts d)"
  unfolding kind_branch modifier_branch name_branch metrics_branch spec_name_excluded_def
    basicFilter_def Let_def
  by (simp only: if_False if_True split: if_splits) blast

text \<open>
  C3. Let \<open>pat\<close> be a pattern that the host refuses to compile. As \<^verbatim>\<open>namePattern\<close> it
  fails closed: no definition passes the basic filter, and the filtered list holds the
  error and metadata entries only. As \<^verbatim>\<open>excludeNamePattern\<close> it fails open: the basic
  filter and the whole filter behave as if the option were absent, and a definition
  passes the basic filter exactly when it meets all the other conditions of the
  configuration: kind, modifier, name pattern and metric bounds.
\<close>

theorem invalid_regex_asymmetry:
  assumes "newRegExp pat = None" and "pat \<noteq> []"
  shows "filter (basicFilter newRegExp (opts\<lparr>namePattern := Some pat\<rparr>)) defs = []
    \<and> applyFiltersToDefinitions newRegExp defs (opts\<lparr>namePattern := Some pat\<rparr>)
        = sort_key startLine (filter isMeta defs)
    \<and> basicFilter newRegExp (opts\<lparr>excludeNamePattern := Some pat\<rparr>) d
        = basicFilter newRegExp (opts\<lparr>excludeNamePattern := None\<rparr>) d
    \<and> applyFiltersToDefinitions newRegExp defs (opts\<lparr>excludeNamePattern := Some pat\<rparr>)
        = applyFiltersToDefinitions newRegExp defs (opts\<lparr>excludeNamePattern := None\<rparr>)
    \<and> basicFilter newRegExp (opts\<lparr>excludeNamePattern := Some pat\<rparr>) d
        = (spec_kind_allowed opts d \<and> spec_modifier_allowed opts d
           \<and> spec_name_included newRegExp opts d \<and> spec_metrics_allowed opts d)"
proof (intro conjI)
  show closed: "filter (basicFilter newRegExp (opts\<lparr>namePattern := Some pat\<rparr>)) defs = []"
    using basicFilter_invalid_namePattern [of newRegExp pat, OF assms]
    by (simp add: filter_empty_conv)
  have "survivorIds newRegExp defs (opts\<lparr>namePattern := Some pat\<rparr>) = []"
    using basicFilter_invalid_namePattern [of newRegExp pat, OF assms]
    by (simp add: survivorIds_def)
  then show "applyFiltersToDefinitions newRegExp defs (opts\<lparr>namePattern := Some pat\<rparr>)
        = sort_key startLine (filter isMeta defs)"
    by (simp add: applyFiltersToDefinitions_def materialized_def touch_def [abs_def] selected_def Let_def)
  show "basicFilter newRegExp (opts\<lparr>excludeNamePattern := Some pat\<rparr>) d
        = basicFilter newRegExp (opts\<lparr>excludeNamePattern := None\<rparr>) d"
    using assms(1) by (rule basicFilter_invalid_exclude [of newRegExp pat])
  have "survivorIds newRegExp defs (opts\<lparr>excludeNamePattern := Some pat\<rparr>)
          = survivorIds newRegExp defs (opts\<lparr>excludeNamePattern := None\<rparr>)"
    by (rule survivorIds_cong)
      (simp_all add: basicFilter_invalid_exclude [of newRegExp pat, OF assms(1)]
          parentExcluded_invalid [of newRegExp pat, OF assms(1)])
  then show "applyFiltersToDefinitions newRegExp defs (opts\<lparr>excludeNamePattern := Some pat\<rparr>)
        = applyFiltersToDefinitions newRegExp defs (opts\<lparr>excludeNamePattern := None\<rparr>)"
    by (simp add: applyFiltersToDefinitions_def materialized_def)
  have "\<not> spec_name_excluded newRegExp (opts\<lparr>excludeNamePattern := Some pat\<rparr>) d"
    using assms(1) by (simp add: spec_name_excluded_def)
  then show "basicFilter newRegExp (opts\<lparr>excludeNamePattern := Some pat\<rparr>) d
        = (spec_kind_allowed opts d \<and> spec_modifier_allowed opts d
           \<and> spec_name_included newRegExp opts d \<and> spec_metrics_allowed opts d)"
    by (simp add: basicFilter_conditions spec_kind_allowed_def spec_modifier_allowed_def
        spec_name_included_def spec_metrics_allowed_def)
qed

text \<open>
  Scenario C with \<^verbatim>\<open>includeTypes: ["method"]\<close> and the pattern \<^verbatim>\<open>(\<close>: as \<^verbatim>\<open>namePattern\<close> it
  empties the result; as \<^verbatim>\<open>excludeNamePattern\<close> it leaves the kind condition at work,
  which only \<open>Method\<close> meets, and the walk then adds its class.
\<close>

theorem invalid_regex_asymmetry_witness:
  "literalRegExp ''('' = None
   \<and> applyFiltersToDefinitions literalRegExp scenarioC (methodsOnly\<lparr>namePattern := Some ''(''\<rparr>)
       = []
   \<and> filter (basicFilter literalRegExp (methodsOnly\<lparr>namePattern := Some ''(''\<rparr>)) scenarioC
       = []
   \<and> basicFilter literalRegExp (methodsOnly\<lparr>excludeNamePattern := Some ''(''\<rparr>) Method
   \<and> \<not> basicFilter literalRegExp (methodsOnly\<lparr>excludeNamePattern := Some ''(''\<rparr>) standaloneFn
   \<and> \<not> spec_kind_allowed methodsOnly standaloneFn
   \<and> applyFiltersToDefinitions literalRegExp scenarioC
         (methodsOnly\<lparr>excludeNamePattern := Some ''(''\<rparr>) = [Class, Method]"
proof -
  have h: "literalRegExp ''('' = None"
    by (simp add: literalRegExp_def)
  have ne: "''('' \<noteq> []"
    by simp
  have m: "filter isMeta scenarioC = []"
    by code_simp
  have n: "applyFiltersToDefinitions literalRegExp scenarioC
             (methodsOnly\<lparr>excludeNamePattern := None\<rparr>) = [Class, Method]"
    by code_simp
  have c1: "spec_kind_allowed methodsOnly Method \<and> spec_modifier_allowed methodsOnly Method
            \<and> spec_name_included literalRegExp methodsOnly Method
            \<and> spec_metrics_allowed methodsOnly Method"
    by code_simp
  have c2: "\<not> spec_kind_allowed methodsOnly standaloneFn"
    by code_simp
  note a = invalid_regex_asymmetry [of literalRegExp "''(''" methodsOnly scenarioC, OF h ne]
  from a [of Method] c1
  have "basicFilter literalRegExp (methodsOnly\<lparr>excludeNamePattern := Some ''(''\<rparr>) Method"
    by blast
  moreover from a [of standaloneFn] c2
  have "\<not> basicFilter literalRegExp (methodsOnly\<lparr>excludeNamePattern := Some ''(''\<rparr>) standaloneFn"
    by blast
  moreover from a [of Method] m n
  have "applyFiltersToDefinitions literalRegExp scenarioC (methodsOnly\<lparr>namePattern := Some ''(''\<rparr>)
          = []"
    "filter (basicFilter literalRegExp (methodsOnly\<lparr>namePattern := Some ''(''\<rparr>)) scenarioC = []"
    "applyFiltersToDefinitions literalRegExp scenarioC
       (methodsOnly\<lparr>excludeNamePattern := Some ''(''\<rparr>) = [Class, Method]"
    by simp_all
  ultimately show ?thesis
    using h c2 by blast
qed

subsection \<open>The ancestor walk\<close>

lemma set_set_add [simp]: "set (set_add x xs) = insert x (set xs)"
  by (auto simp: set_add_def)

lemma set_new_Set [simp]: "set (new_Set xs) = set xs"
proof -
  have "set (fold set_add xs acc) = set xs \<union> set acc" for acc
    by (induction xs arbitrary: acc) auto
  then show ?thesis by (simp add: new_Set_def)
qed

lemma in_butlast: "x \<in> set xs \<Longrightarrow> x \<noteq> last xs \<Longrightarrow> x \<in> set (butlast xs)"
  by (induction xs) (auto split: if_splits)

lemma closedAt_mono:
  "closedAt R opts defs E d \<Longrightarrow> set E \<subseteq> set E' \<Longrightarrow> closedAt R opts defs E' d"
  by (auto simp: closedAt_def)

lemma selected_truthy: "selected E d \<Longrightarrow> truthy (def_id d)"
  by (simp add: selected_def)

lemma truthy_the: "truthy x \<Longrightarrow> x = Some (the x)"
  by (cases x) (simp_all add: truthy_def)

lemma walkStep_inv:
  assumes dist: "distinct (map def_id defs)"
    and inv: "walkInv R opts defs (E, P, items)"
  shows "walkInv R opts defs (walkStep R opts defs (E, P, items))"
proof (cases "items = []")
  case True
  with inv show ?thesis by (simp add: walkStep_def pop_def)
next
  case False
  define current where "current = last items"
  define rest where "rest = butlast items"
  have inj: "inj_on def_id (set defs)"
    using dist by (simp add: distinct_map)
  from inv have sub: "set items \<subseteq> set defs"
    and idsE: "\<forall>c \<in> set items. def_id c \<in> set E"
    and PE: "\<forall>s \<in> set P. Some s \<in> set E"
    and cl: "\<forall>d \<in> set defs. selected E d \<longrightarrow>
              closedAt R opts defs E d \<or> (d \<in> set items \<and> the (def_id d) \<notin> set P)"
    by (simp_all add: walkInv_def)
  from False have cur_in: "current \<in> set items"
    by (simp add: current_def)
  have rest_sub: "set rest \<subseteq> set items"
    by (auto simp: rest_def dest: in_set_butlastD)
  have in_rest: "d \<in> set rest" if "d \<in> set items" "d \<noteq> current" for d
    using that by (simp add: rest_def current_def in_butlast)
  show ?thesis
  proof (cases "\<not> truthy (def_id current) \<or> the (def_id current) \<in> set P")
    case True
    then have step: "walkStep R opts defs (E, P, items) = (E, P, rest)"
      using False by (simp add: walkStep_def pop_def current_def rest_def)
    have "closedAt R opts defs E d \<or> (d \<in> set rest \<and> the (def_id d) \<notin> set P)"
      if "d \<in> set defs" "selected E d" for d
    proof -
      from cl that have "closedAt R opts defs E d \<or> (d \<in> set items \<and> the (def_id d) \<notin> set P)"
        by blast
      moreover have "d \<noteq> current" if "the (def_id d) \<notin> set P"
        using that True \<open>selected E d\<close> by (auto simp: selected_def)
      ultimately show ?thesis using in_rest by blast
    qed
    with sub idsE PE rest_sub show ?thesis
      unfolding step walkInv_def by auto
  next
    case proc: False
    define cid where "cid = the (def_id current)"
    from proc have cur_id: "def_id current = Some cid" and cid_new: "cid \<notin> set P"
      and cur_truthy: "truthy (def_id current)"
      using truthy_the [of "def_id current"] by (auto simp: cid_def)
    have cidE: "Some cid \<in> set E"
      using idsE cur_in cur_id by force
    have other: "the (def_id d) \<noteq> cid"
      if "d \<in> set defs" "d \<noteq> current" "truthy (def_id d)" for d
    proof
      assume "the (def_id d) = cid"
      with truthy_the [OF that(3)] cur_id have "def_id d = def_id current" by simp
      with inj that(1) cur_in sub have "d = current" by (auto dest: inj_onD)
      with that(2) show False by simp
    qed
    show ?thesis
    proof (cases "truthy (parentId current) \<and> parentId current \<notin> set E
        \<and> (\<exists>parent. find (\<lambda>p. def_id p = parentId current) defs = Some parent
              \<and> \<not> parentExcluded R opts parent)")
      case True
      then obtain parent where par: "find (\<lambda>p. def_id p = parentId current) defs = Some parent"
        and nex: "\<not> parentExcluded R opts parent"
        and ptruthy: "truthy (parentId current)" and pnew: "parentId current \<notin> set E"
        by blast
      from find_SomeD [OF par] have par_in: "parent \<in> set defs"
        and par_id: "def_id parent = parentId current" by simp_all
      have step: "walkStep R opts defs (E, P, items)
                    = (set_add (def_id parent) E, set_add cid P, rest @ [parent])"
        using False proc par nex ptruthy pnew par_id
        by (simp add: walkStep_def pop_def current_def rest_def cid_def Let_def)
      have "closedAt R opts defs (set_add (def_id parent) E) d
            \<or> (d \<in> set (rest @ [parent]) \<and> the (def_id d) \<notin> set (set_add cid P))"
        if d: "d \<in> set defs" "selected (set_add (def_id parent) E) d" for d
      proof (cases "def_id d = def_id parent")
        case True
        with inj d(1) par_in have "d = parent" by (auto dest: inj_onD)
        moreover have "the (def_id parent) \<notin> set P"
          using PE pnew par_id ptruthy truthy_the [of "def_id parent"] by metis
        moreover have "the (def_id parent) \<noteq> cid"
          using cidE pnew par_id ptruthy truthy_the [of "def_id parent"] by metis
        ultimately show ?thesis by simp
      next
        case False
        with d(2) have selE: "selected E d" by (auto simp: selected_def)
        from cl d(1) selE
        have "closedAt R opts defs E d \<or> (d \<in> set items \<and> the (def_id d) \<notin> set P)"
          by blast
        then show ?thesis
        proof
          assume "closedAt R opts defs E d"
          then show ?thesis by (auto intro: closedAt_mono)
        next
          assume pend: "d \<in> set items \<and> the (def_id d) \<notin> set P"
          show ?thesis
          proof (cases "d = current")
            case True
            then have "closedAt R opts defs (set_add (def_id parent) E) d"
              by (simp add: closedAt_def par_id)
            then show ?thesis ..
          next
            case False
            with pend in_rest other [OF d(1) False selected_truthy [OF selE]]
            show ?thesis by simp
          qed
        qed
      qed
      moreover have "set (rest @ [parent]) \<subseteq> set defs"
        using rest_sub sub par_in by auto
      moreover have "\<forall>c \<in> set (rest @ [parent]). def_id c \<in> set (set_add (def_id parent) E)"
        using rest_sub idsE by auto
      moreover have "\<forall>s \<in> set (set_add cid P). Some s \<in> set (set_add (def_id parent) E)"
        using PE cidE by auto
      ultimately show ?thesis
        unfolding step walkInv_def by simp
    next
      case nopush: False
      have step: "walkStep R opts defs (E, P, items) = (E, set_add cid P, rest)"
        using False proc nopush
        by (auto simp: walkStep_def pop_def current_def rest_def cid_def Let_def
            split: option.splits)
      have cur_closed: "closedAt R opts defs E current"
        using nopush by (auto simp: closedAt_def split: option.splits)
      have "closedAt R opts defs E d \<or> (d \<in> set rest \<and> the (def_id d) \<notin> set (set_add cid P))"
        if d: "d \<in> set defs" "selected E d" for d
      proof (cases "d = current")
        case True
        with cur_closed show ?thesis by simp
      next
        case False
        from cl d have "closedAt R opts defs E d \<or> (d \<in> set items \<and> the (def_id d) \<notin> set P)"
          by blast
        with False in_rest other [OF d(1) False selected_truthy [OF d(2)]]
        show ?thesis by auto
      qed
      moreover have "\<forall>s \<in> set (set_add cid P). Some s \<in> set E"
        using PE cidE by auto
      ultimately show ?thesis
        using sub idsE rest_sub unfolding step walkInv_def by auto
    qed
  qed
qed

lemma ancestorWalk_closed:
  assumes "distinct (map def_id defs)" and "walkInv R opts defs st"
  shows "\<forall>d \<in> set defs. selected (ancestorWalk R opts defs st) d \<longrightarrow>
           closedAt R opts defs (ancestorWalk R opts defs st) d"
  using assms
proof (induction R opts defs st rule: ancestorWalk.induct)
  case (1 R opts defs E P items)
  show ?case
  proof (cases "items = []")
    case True
    with "1.prems"(2) show ?thesis
      by (simp add: walkInv_def)
  next
    case False
    have "walkInv R opts defs (walkStep R opts defs (E, P, items))"
      using "1.prems" by (rule walkStep_inv)
    with "1.IH" [OF False "1.prems"(1)] False show ?thesis
      by (simp add: ancestorWalk.simps)
  qed
qed

lemma walkStep_origin:
  assumes "originInv R opts defs E0 E"
    and "walkStep R opts defs (E, P, items) = (E', P', items')"
  shows "originInv R opts defs E0 E'"
proof (cases "E' = E")
  case True
  with assms show ?thesis by simp
next
  case False
  with assms(2) obtain p where "p \<in> set defs" "\<not> parentExcluded R opts p"
    "E' = set_add (def_id p) E"
    by (auto simp: walkStep_def pop_def Let_def split: option.splits if_splits
        dest!: find_SomeD)
  with assms(1) show ?thesis
    by (auto simp: originInv_def)
qed

lemma ancestorWalk_origin:
  assumes "originInv R opts defs E0 (fst st)"
  shows "originInv R opts defs E0 (ancestorWalk R opts defs st)"
  using assms
proof (induction R opts defs st rule: ancestorWalk.induct)
  case (1 R opts defs E P items)
  show ?case
  proof (cases "items = []")
    case True
    with "1.prems" show ?thesis by simp
  next
    case False
    obtain E' P' items' where step: "walkStep R opts defs (E, P, items) = (E', P', items')"
      by (cases "walkStep R opts defs (E, P, items)") auto
    from "1.prems" have "originInv R opts defs E0 E'"
      using walkStep_origin [OF _ step] by simp
    with "1.IH" [OF False] step False show ?thesis
      by (simp add: ancestorWalk.simps)
  qed
qed

lemma survivorIds_closed:
  assumes "distinct (map def_id defs)" and "d \<in> set defs"
    and "selected (survivorIds R defs opts) d"
  shows "closedAt R opts defs (survivorIds R defs opts) d"
proof -
  let ?basic = "filter (basicFilter R opts) (filter (\<lambda>d. \<not> isMeta d) defs)"
  have inj: "inj_on def_id (set defs)"
    using assms(1) by (simp add: distinct_map)
  have "d \<in> set ?basic" if "d \<in> set defs" "def_id d \<in> set (map def_id ?basic)" for d
  proof -
    from that(2) obtain b where b: "b \<in> set ?basic" "def_id b = def_id d" by auto
    then have "b \<in> set defs" by simp
    with inj that(1) b(2) have "b = d" by (auto dest: inj_onD)
    with b(1) show ?thesis by simp
  qed
  then have key: "\<forall>d \<in> set defs. selected (new_Set (map def_id ?basic)) d \<longrightarrow>
               d \<in> set ?basic"
    unfolding selected_def set_new_Set by blast
  have "walkInv R opts defs (new_Set (map def_id ?basic), [], ?basic)"
    unfolding walkInv_def prod.case
  proof (intro conjI ballI impI)
    show "set ?basic \<subseteq> set defs" by auto
    show "def_id c \<in> set (new_Set (map def_id ?basic))" if "c \<in> set ?basic" for c
      using that unfolding set_new_Set set_map by (rule imageI)
    show "Some s \<in> set (new_Set (map def_id ?basic))" if "s \<in> set []" for s
      using that by simp
    show "closedAt R opts defs (new_Set (map def_id ?basic)) d
          \<or> (d \<in> set ?basic \<and> the (def_id d) \<notin> set [])"
      if "d \<in> set defs" "selected (new_Set (map def_id ?basic)) d" for d
    proof (rule disjI2, rule conjI)
      from key that show "d \<in> set ?basic" by blast
      show "the (def_id d) \<notin> set []" by simp
    qed
  qed
  from ancestorWalk_closed [OF assms(1) this] assms(2,3) show ?thesis
    by (simp add: survivorIds_def Let_def)
qed

lemma survivorIds_origin:
  assumes "x \<in> set (survivorIds R defs opts)"
  shows "x \<in> def_id ` {d \<in> set defs. \<not> isMeta d \<and> basicFilter R opts d}
         \<or> (\<exists>p \<in> set defs. def_id p = x \<and> \<not> parentExcluded R opts p)"
proof -
  let ?basic = "filter (basicFilter R opts) (filter (\<lambda>d. \<not> isMeta d) defs)"
  have "originInv R opts defs (map def_id ?basic) (fst (new_Set (map def_id ?basic), [], ?basic))"
    by (simp add: originInv_def)
  from ancestorWalk_origin [OF this]
  have "originInv R opts defs (map def_id ?basic) (survivorIds R defs opts)"
    by (simp add: survivorIds_def Let_def)
  with assms have "x \<in> set (map def_id ?basic)
      \<or> (\<exists>p \<in> set defs. def_id p = x \<and> \<not> parentExcluded R opts p)"
    unfolding originInv_def by blast
  then show ?thesis by auto
qed

subsection \<open>The filtered list\<close>

lemma rebuild_fields [simp]:
  "def_id (rebuild F d) = def_id d"
  "def_type (rebuild F d) = def_type d"
  "startLine (rebuild F d) = startLine d"
  "name (rebuild F d) = name d"
  by (simp_all add: rebuild_def)

lemma isMeta_rebuild [simp]: "isMeta (rebuild F d) = isMeta d"
  by (simp add: isMeta_def)

lemma touch_fields [simp]:
  "def_id (touch E F d) = def_id d"
  "def_type (touch E F d) = def_type d"
  "startLine (touch E F d) = startLine d"
  "isMeta (touch E F d) = isMeta d"
  by (simp_all add: touch_def)

lemma applyFilters_unfold:
  "applyFiltersToDefinitions R defs opts =
     sort_key startLine
       (map (touch (survivorIds R defs opts)
               (new_Set (map def_id (filter (selected (survivorIds R defs opts)) defs))))
          (filter isMeta defs @ filter (selected (survivorIds R defs opts)) defs))"
  by (simp add: applyFiltersToDefinitions_def materialized_def Let_def)

lemma set_applyFilters:
  "set (applyFiltersToDefinitions R defs opts) =
     touch (survivorIds R defs opts)
       (new_Set (map def_id (filter (selected (survivorIds R defs opts)) defs)))
     ` {d \<in> set defs. isMeta d \<or> selected (survivorIds R defs opts) d}"
  unfolding applyFilters_unfold by auto

lemma survives_iff:
  assumes "distinct (map def_id defs)" and "d \<in> set defs"
  shows "survives R defs opts d
         \<longleftrightarrow> truthy (def_id d) \<and> (isMeta d \<or> selected (survivorIds R defs opts) d)"
proof -
  have inj: "inj_on def_id (set defs)"
    using assms(1) by (simp add: distinct_map)
  have "d0 = d" if "d0 \<in> set defs" "def_id d0 = def_id d" for d0
    using inj that assms(2) by (auto dest: inj_onD)
  then show ?thesis
    unfolding survives_def set_applyFilters using assms(2) by auto
qed

lemma parentOf_SomeD:
  "parentOf defs d = Some p \<Longrightarrow> p \<in> set defs \<and> def_id p = parentId d \<and> truthy (parentId d)"
  by (auto simp: parentOf_def split: if_splits dest: find_SomeD)

lemma closed_parent_selected:
  assumes "closedAt R opts defs E d" and "parentOf defs d = Some p"
    and "\<not> parentExcluded R opts p"
  shows "selected E p"
proof -
  from parentOf_SomeD [OF assms(2)] have t: "truthy (parentId d)"
    and pid: "def_id p = parentId d" by simp_all
  from assms(2) t have "find (\<lambda>p. def_id p = parentId d) defs = Some p"
    by (simp add: parentOf_def)
  with assms(1,3) t have "parentId d \<in> set E"
    by (simp add: closedAt_def)
  with t pid show ?thesis by (simp add: selected_def)
qed

lemma keptAncestor_selected:
  assumes "distinct (map def_id defs)"
    and "keptAncestor R opts defs d a"
    and "d \<in> set defs" and "selected (survivorIds R defs opts) d"
  shows "a \<in> set defs \<and> selected (survivorIds R defs opts) a"
  using assms(2,3,4)
proof (induction rule: keptAncestor.induct)
  case (kept_parent d p)
  from survivorIds_closed [OF assms(1) kept_parent(3) kept_parent(4)] kept_parent(1,2)
  have "selected (survivorIds R defs opts) p" by (rule closed_parent_selected)
  with parentOf_SomeD [OF kept_parent(1)] show ?case by simp
next
  case (kept_step d a p)
  then have a: "a \<in> set defs" "selected (survivorIds R defs opts) a" by simp_all
  from survivorIds_closed [OF assms(1) a] kept_step(2,3)
  have "selected (survivorIds R defs opts) p" by (rule closed_parent_selected)
  with parentOf_SomeD [OF kept_step(2)] show ?case by simp
qed

text \<open>
  C1, as the code has it. In a list with pairwise different ids: when a definition \<open>d\<close>
  that is no error or metadata entry survives, every ancestor reached from \<open>d\<close> through
  parents none of which the walk's name test excludes survives too. A definition that
  fails the basic filter and that the walk's name test excludes does not survive: the
  walk does not add it, for any child.
\<close>

theorem ancestor_closure:
  assumes "distinct (map def_id defs)"
  shows "(d \<in> set defs \<and> \<not> isMeta d \<and> survives R defs opts d
            \<and> keptAncestor R opts defs d a
          \<longrightarrow> survives R defs opts a)
       \<and> (p \<in> set defs \<and> \<not> isMeta p \<and> \<not> basicFilter R opts p \<and> parentExcluded R opts p
          \<longrightarrow> \<not> survives R defs opts p)"
proof (intro conjI impI)
  assume h: "d \<in> set defs \<and> \<not> isMeta d \<and> survives R defs opts d
               \<and> keptAncestor R opts defs d a"
  then have "selected (survivorIds R defs opts) d"
    using survives_iff [OF assms, of d R opts] by simp
  with keptAncestor_selected [OF assms, of R opts d a] h
  have "a \<in> set defs" "selected (survivorIds R defs opts) a" by simp_all
  then show "survives R defs opts a"
    using survives_iff [OF assms, of a R opts] by (simp add: selected_def)
next
  assume h: "p \<in> set defs \<and> \<not> isMeta p \<and> \<not> basicFilter R opts p \<and> parentExcluded R opts p"
  have inj: "inj_on def_id (set defs)"
    using assms by (simp add: distinct_map)
  show "\<not> survives R defs opts p"
  proof
    assume "survives R defs opts p"
    with h have "def_id p \<in> set (survivorIds R defs opts)"
      using survives_iff [OF assms, of p R opts] by (simp add: selected_def)
    from survivorIds_origin [OF this]
    obtain q where q: "q \<in> set defs" "def_id q = def_id p"
      "(\<not> isMeta q \<and> basicFilter R opts q) \<or> \<not> parentExcluded R opts q"
      by auto
    with inj h have "q = p" by (auto dest: inj_onD)
    with q(3) h show False by simp
  qed
qed

text \<open>
  The claim as stated fails: with \<^verbatim>\<open>includeTypes = [method]\<close> and
  \<^verbatim>\<open>excludeNamePattern = Inner\<close> the method \<open>Run\<close> survives and its ancestor \<open>Outer\<close>,
  whose name does not match the pattern, does not: the walk stops at \<open>Inner\<close>.
\<close>

theorem ancestor_closure_counterexample:
  "distinct (map def_id nested) \<and> Run \<in> set nested \<and> \<not> isMeta Run
   \<and> survives literalRegExp nested methodsNotInner Run
   \<and> ancestor nested Run Outer
   \<and> \<not> spec_name_excluded literalRegExp methodsNotInner Outer
   \<and> \<not> survives literalRegExp nested methodsNotInner Outer"
proof -
  have "parentOf nested Run = Some Inner" "parentOf nested Inner = Some Outer"
    by code_simp+
  then have "ancestor nested Run Outer"
    by (blast intro: ancestor.intros)
  moreover have "distinct (map def_id nested)" "Run \<in> set nested" "\<not> isMeta Run"
    by code_simp+
  moreover have "survives literalRegExp nested methodsNotInner Run"
    by code_simp
  moreover have "\<not> spec_name_excluded literalRegExp methodsNotInner Outer"
    by code_simp
  moreover have "\<not> survives literalRegExp nested methodsNotInner Outer"
    by code_simp
  ultimately show ?thesis by blast
qed

text \<open>
  The closure at work: with \<^verbatim>\<open>includeTypes = [method]\<close> alone both classes come back.
\<close>

theorem ancestor_closure_witness:
  "distinct (map def_id nested) \<and> Run \<in> set nested \<and> \<not> isMeta Run
   \<and> survives literalRegExp nested methodsOnly Run
   \<and> keptAncestor literalRegExp methodsOnly nested Run Outer
   \<and> survives literalRegExp nested methodsOnly Outer
   \<and> Inner \<in> set nested \<and> \<not> isMeta Inner
   \<and> \<not> basicFilter literalRegExp methodsNotInner Inner
   \<and> parentExcluded literalRegExp methodsNotInner Inner
   \<and> \<not> survives literalRegExp nested methodsNotInner Inner"
proof -
  have dist: "distinct (map def_id nested)"
    by code_simp
  have par: "parentOf nested Run = Some Inner" "parentOf nested Inner = Some Outer"
    by code_simp+
  have nex: "\<not> parentExcluded literalRegExp methodsOnly Inner"
    "\<not> parentExcluded literalRegExp methodsOnly Outer"
    by code_simp+
  have kept: "keptAncestor literalRegExp methodsOnly nested Run Outer"
    by (rule kept_step [OF kept_parent [OF par(1) nex(1)] par(2) nex(2)])
  have run: "Run \<in> set nested" "\<not> isMeta Run" "survives literalRegExp nested methodsOnly Run"
    by code_simp+
  have inner: "Inner \<in> set nested" "\<not> isMeta Inner"
    "\<not> basicFilter literalRegExp methodsNotInner Inner"
    "parentExcluded literalRegExp methodsNotInner Inner"
    by code_simp+
  from ancestor_closure [OF dist, of Run literalRegExp methodsOnly Outer] run kept
  have "survives literalRegExp nested methodsOnly Outer" by blast
  moreover from ancestor_closure [OF dist, of _ _ methodsNotInner _ Inner] inner
  have "\<not> survives literalRegExp nested methodsNotInner Inner" by blast
  ultimately show ?thesis using dist kept run inner by blast
qed

subsection \<open>Shape of the filtered list\<close>

lemma in_applyFilters_D:
  assumes "d \<in> set (applyFiltersToDefinitions R defs opts)"
  obtains d0 where "d0 \<in> set defs"
    and "isMeta d0 \<or> selected (survivorIds R defs opts) d0"
    and "d = touch (survivorIds R defs opts)
               (new_Set (map def_id (filter (selected (survivorIds R defs opts)) defs))) d0"
  using assms unfolding set_applyFilters by auto

lemma finalIds_present:
  assumes "x \<in> set (new_Set (map def_id (filter (selected (survivorIds R defs opts)) defs)))"
  shows "\<exists>r \<in> set (applyFiltersToDefinitions R defs opts). def_id r = x"
proof -
  from assms obtain d0 where "d0 \<in> set defs" "selected (survivorIds R defs opts) d0"
    "def_id d0 = x" by auto
  then show ?thesis
    unfolding set_applyFilters by (auto intro!: bexI [of _ d0])
qed

lemma nonmeta_final_D:
  assumes "d \<in> set (applyFiltersToDefinitions R defs opts)" and "\<not> isMeta d"
  obtains d0 where "d0 \<in> set defs" and "selected (survivorIds R defs opts) d0"
    and "d = rebuild (new_Set (map def_id (filter (selected (survivorIds R defs opts)) defs))) d0"
proof -
  from assms(1) obtain d0 where d0: "d0 \<in> set defs"
    "isMeta d0 \<or> selected (survivorIds R defs opts) d0"
    "d = touch (survivorIds R defs opts)
               (new_Set (map def_id (filter (selected (survivorIds R defs opts)) defs))) d0"
    by (rule in_applyFilters_D)
  with assms(2) have "selected (survivorIds R defs opts) d0" by auto
  with d0 that show ?thesis by (simp add: touch_def)
qed

lemma children_present:
  assumes "d \<in> set (applyFiltersToDefinitions R defs opts)" and "\<not> isMeta d"
    and "children d = Some cs" and "c \<in> set cs"
  shows "\<exists>x \<in> set (applyFiltersToDefinitions R defs opts). def_id x = Some c"
proof -
  from assms(1,2) obtain d0 where
    "d = rebuild (new_Set (map def_id (filter (selected (survivorIds R defs opts)) defs))) d0"
    by (rule nonmeta_final_D)
  with assms(3,4)
  have "Some c \<in> set (new_Set (map def_id (filter (selected (survivorIds R defs opts)) defs)))"
    by (auto simp: rebuild_def)
  then show ?thesis by (rule finalIds_present)
qed

lemma parent_present:
  assumes "d \<in> set (applyFiltersToDefinitions R defs opts)" and "\<not> isMeta d"
    and "truthy (parentId d)"
  shows "\<exists>x \<in> set (applyFiltersToDefinitions R defs opts). def_id x = parentId d"
proof -
  from assms(1,2) obtain d0 where
    "d = rebuild (new_Set (map def_id (filter (selected (survivorIds R defs opts)) defs))) d0"
    by (rule nonmeta_final_D)
  with assms(3)
  have "parentId d \<in> set (new_Set (map def_id (filter (selected (survivorIds R defs opts)) defs)))"
    by (auto simp: rebuild_def truthy_def split: if_splits)
  then show ?thesis by (rule finalIds_present)
qed

lemma meta_not_selected:
  assumes "\<forall>m \<in> set defs. isMeta m \<longrightarrow> def_id m = None" and "d \<in> set defs" and "isMeta d"
  shows "\<not> selected E d"
  using assms by (auto simp: selected_def truthy_def)

lemma ids_of_final:
  assumes H: "\<forall>m \<in> set defs. isMeta m \<longrightarrow> def_id m = None"
  shows "Some c \<in> def_id ` set (applyFiltersToDefinitions R defs opts)
         \<longleftrightarrow> Some c \<in> set (new_Set (map def_id (filter (selected (survivorIds R defs opts)) defs)))"
proof
  assume "Some c \<in> def_id ` set (applyFiltersToDefinitions R defs opts)"
  then obtain d where d: "d \<in> set (applyFiltersToDefinitions R defs opts)" "def_id d = Some c"
    by auto
  from d(1) obtain d0 where d0: "d0 \<in> set defs"
    "isMeta d0 \<or> selected (survivorIds R defs opts) d0"
    "d = touch (survivorIds R defs opts)
               (new_Set (map def_id (filter (selected (survivorIds R defs opts)) defs))) d0"
    by (rule in_applyFilters_D)
  from d0(3) d(2) have id0: "def_id d0 = Some c" by simp
  with H d0(1) have "\<not> isMeta d0" by auto
  with d0 have "selected (survivorIds R defs opts) d0" by simp
  with d0(1) id0 show "Some c \<in> set (new_Set (map def_id (filter (selected (survivorIds R defs opts)) defs)))"
    by force
next
  assume "Some c \<in> set (new_Set (map def_id (filter (selected (survivorIds R defs opts)) defs)))"
  from finalIds_present [OF this] show "Some c \<in> def_id ` set (applyFiltersToDefinitions R defs opts)"
    by force
qed

lemma rebuild_by_final:
  assumes H: "\<forall>m \<in> set defs. isMeta m \<longrightarrow> def_id m = None"
  shows "rebuild (new_Set (map def_id (filter (selected (survivorIds R defs opts)) defs))) d0
         = d0\<lparr>children := map_option
                 (filter (\<lambda>c. Some c \<in> def_id ` set (applyFiltersToDefinitions R defs opts)))
                 (children d0),
               parentId := (if truthy (parentId d0)
                               \<and> parentId d0 \<notin> def_id ` set (applyFiltersToDefinitions R defs opts)
                            then None else parentId d0)\<rparr>"
proof -
  have "truthy (parentId d0) \<Longrightarrow>
          parentId d0 \<in> def_id ` set (applyFiltersToDefinitions R defs opts)
          \<longleftrightarrow> parentId d0 \<in> set (new_Set (map def_id (filter (selected (survivorIds R defs opts)) defs)))"
    using ids_of_final [OF H, of _ R opts] by (cases "parentId d0") (simp_all add: truthy_def)
  then show ?thesis
    unfolding rebuild_def using ids_of_final [OF H, of _ R opts]
    by (auto cong: filter_cong)
qed

lemma metas_unchanged:
  assumes H: "\<forall>m \<in> set defs. isMeta m \<longrightarrow> def_id m = None"
  shows "mset (filter isMeta (applyFiltersToDefinitions R defs opts)) = mset (filter isMeta defs)"
proof -
  let ?E = "survivorIds R defs opts"
  let ?F = "new_Set (map def_id (filter (selected ?E) defs))"
  have 1: "filter isMeta (map (touch ?E ?F) (filter isMeta defs)) = filter isMeta defs"
  proof -
    have "map (touch ?E ?F) (filter isMeta defs) = filter isMeta defs"
      by (rule map_idI) (use meta_not_selected [OF H] in \<open>simp add: touch_def\<close>)
    then show ?thesis by simp
  qed
  have 2: "filter isMeta (map (touch ?E ?F) (filter (selected ?E) defs)) = []"
    using meta_not_selected [OF H] by (auto simp: filter_empty_conv)
  have "mset (filter isMeta (applyFiltersToDefinitions R defs opts))
          = mset (filter isMeta (map (touch ?E ?F) (filter isMeta defs @ filter (selected ?E) defs)))"
    unfolding applyFilters_unfold by (simp only: mset_filter mset_sort)
  also have "\<dots> = mset (filter isMeta defs)"
    using 1 2 by simp
  finally show ?thesis .
qed

lemma applyFilters_sorted:
  "sorted (map startLine (applyFiltersToDefinitions R defs opts))"
  by (simp add: applyFiltersToDefinitions_def)

lemma applyFilters_stable:
  "filter (\<lambda>d. startLine d = k) (applyFiltersToDefinitions R defs opts)
   = filter (\<lambda>d. startLine d = k) (materialized R defs opts)"
proof (cases "defs = []")
  case True
  then show ?thesis by (simp add: applyFiltersToDefinitions_def materialized_def)
next
  case False
  then show ?thesis by (simp add: applyFiltersToDefinitions_def sort_key_stable)
qed

text \<open>
  C7. In the filtered list: the children of every entry that is no error or metadata
  entry are ids of entries of the list, and a parent link that is left points to an
  entry of the list. When the error and metadata entries of the input carry no id (the
  extractor builds them without one), every other entry of the list is an input
  definition whose \<^verbatim>\<open>children\<close> are cut down to the ids present in the list and whose
  \<^verbatim>\<open>parentId\<close> is cleared exactly when it names an id that is not present, and the error
  and metadata entries are those of the input, unchanged. The list is sorted by
  \<^verbatim>\<open>startLine\<close>, entries with equal \<^verbatim>\<open>startLine\<close> keeping the order they had before the
  sort.
\<close>

theorem filtered_list_consistent:
  "(let final = applyFiltersToDefinitions newRegExp definitions filterOptions in
    (\<forall>d \<in> set final. \<not> isMeta d \<longrightarrow>
       (\<forall>c \<in> set (case children d of None \<Rightarrow> [] | Some cs \<Rightarrow> cs).
          \<exists>x \<in> set final. def_id x = Some c))
    \<and> (\<forall>d \<in> set final. \<not> isMeta d \<longrightarrow> truthy (parentId d) \<longrightarrow>
          (\<exists>x \<in> set final. def_id x = parentId d))
    \<and> ((\<forall>m \<in> set definitions. isMeta m \<longrightarrow> def_id m = None) \<longrightarrow>
          (\<forall>d \<in> set final. \<not> isMeta d \<longrightarrow>
             (\<exists>d0 \<in> set definitions.
                d = d0\<lparr>children := map_option (filter (\<lambda>c. Some c \<in> def_id ` set final))
                                     (children d0),
                       parentId := (if truthy (parentId d0) \<and> parentId d0 \<notin> def_id ` set final
                                    then None else parentId d0)\<rparr>))
          \<and> mset (filter isMeta final) = mset (filter isMeta definitions))
    \<and> sorted (map startLine final)
    \<and> (\<forall>k. filter (\<lambda>d. startLine d = k) final
             = filter (\<lambda>d. startLine d = k) (materialized newRegExp definitions filterOptions)))"
  unfolding Let_def
proof (intro conjI ballI impI allI)
  fix d c
  assume d: "d \<in> set (applyFiltersToDefinitions newRegExp definitions filterOptions)" "\<not> isMeta d"
    and c: "c \<in> set (case children d of None \<Rightarrow> [] | Some cs \<Rightarrow> cs)"
  from c obtain cs where "children d = Some cs" "c \<in> set cs"
    by (cases "children d") auto
  with d show "\<exists>x \<in> set (applyFiltersToDefinitions newRegExp definitions filterOptions).
                 def_id x = Some c"
    by (rule children_present)
next
  fix d
  assume "d \<in> set (applyFiltersToDefinitions newRegExp definitions filterOptions)" "\<not> isMeta d"
    "truthy (parentId d)"
  then show "\<exists>x \<in> set (applyFiltersToDefinitions newRegExp definitions filterOptions).
               def_id x = parentId d"
    by (rule parent_present)
next
  fix d
  assume H: "\<forall>m \<in> set definitions. isMeta m \<longrightarrow> def_id m = None"
    and d: "d \<in> set (applyFiltersToDefinitions newRegExp definitions filterOptions)" "\<not> isMeta d"
  from d obtain d0 where "d0 \<in> set definitions"
    "d = rebuild (new_Set (map def_id
           (filter (selected (survivorIds newRegExp definitions filterOptions)) definitions))) d0"
    by (rule nonmeta_final_D)
  then show "\<exists>d0 \<in> set definitions.
      d = d0\<lparr>children := map_option
                 (filter (\<lambda>c. Some c \<in> def_id ` set (applyFiltersToDefinitions newRegExp
                                                          definitions filterOptions)))
                 (children d0),
             parentId := (if truthy (parentId d0)
                             \<and> parentId d0 \<notin> def_id ` set (applyFiltersToDefinitions newRegExp
                                                             definitions filterOptions)
                          then None else parentId d0)\<rparr>"
    using rebuild_by_final [OF H, of newRegExp filterOptions d0] by blast
next
  assume "\<forall>m \<in> set definitions. isMeta m \<longrightarrow> def_id m = None"
  then show "mset (filter isMeta (applyFiltersToDefinitions newRegExp definitions filterOptions))
             = mset (filter isMeta definitions)"
    by (rule metas_unchanged)
next
  show "sorted (map startLine (applyFiltersToDefinitions newRegExp definitions filterOptions))"
    by (rule applyFilters_sorted)
next
  fix k
  show "filter (\<lambda>d. startLine d = k) (applyFiltersToDefinitions newRegExp definitions filterOptions)
        = filter (\<lambda>d. startLine d = k) (materialized newRegExp definitions filterOptions)"
    by (rule applyFilters_stable)
qed


theorem filtered_list_consistent_witness:
  "list_all (\<lambda>m. isMeta m \<longrightarrow> def_id m = None) nestedWithError
   \<and> applyFiltersToDefinitions literalRegExp nestedWithError methodsNotInner
       = [parseError, Run\<lparr>parentId := None\<rparr>]
   \<and> materialized literalRegExp nestedWithError methodsNotInner
       = [parseError, Run\<lparr>parentId := None\<rparr>]
   \<and> mset (filter isMeta (applyFiltersToDefinitions literalRegExp nestedWithError methodsNotInner))
       = mset (filter isMeta nestedWithError)
   \<and> sorted (map startLine (applyFiltersToDefinitions literalRegExp nestedWithError methodsNotInner))"
proof -
  have H: "\<forall>m \<in> set nestedWithError. isMeta m \<longrightarrow> def_id m = None"
    by code_simp
  have out: "applyFiltersToDefinitions literalRegExp nestedWithError methodsNotInner
               = [parseError, Run\<lparr>parentId := None\<rparr>]"
    by code_simp
  have mat: "materialized literalRegExp nestedWithError methodsNotInner
               = [parseError, Run\<lparr>parentId := None\<rparr>]"
    by code_simp
  from filtered_list_consistent [of literalRegExp nestedWithError methodsNotInner] H
  have "mset (filter isMeta (applyFiltersToDefinitions literalRegExp nestedWithError methodsNotInner))
          = mset (filter isMeta nestedWithError)"
    and "sorted (map startLine (applyFiltersToDefinitions literalRegExp nestedWithError
                                  methodsNotInner))"
    unfolding Let_def by blast+
  with H out mat show ?thesis
    by (simp add: list_all_iff)
qed

subsection \<open>The input objects are not written\<close>

lemma fold_update_length [simp]:
  "length (fold (\<lambda>r hp. hp[r := g (hp ! r)]) rs h) = length h"
  by (induction rs arbitrary: h) simp_all

lemma fold_update_nth:
  assumes "distinct rs" and "i < length h"
  shows "fold (\<lambda>r hp. hp[r := g (hp ! r)]) rs h ! i
         = (if i \<in> set rs then g (h ! i) else h ! i)"
  using assms
proof (induction rs arbitrary: h)
  case Nil
  then show ?case by simp
next
  case (Cons r rs)
  from Cons.prems have "i < length (h[r := g (h ! r)])" "distinct rs" by simp_all
  from Cons.IH [OF this(2,1)] Cons.prems show ?case
    by (cases "i = r") auto
qed

lemma fold_update_frame:
  assumes "\<forall>r \<in> set rs. n \<le> r"
  shows "take n (fold (\<lambda>r hp. hp[r := g (hp ! r)]) rs h) = take n h"
  using assms by (induction rs arbitrary: h) simp_all

lemma map_nth_copy:
  "map (\<lambda>r. (h @ map (\<lambda>r. h ! r) ds) ! r) [length h ..< length h + length ds]
   = map (\<lambda>r. h ! r) ds"
  by (rule nth_equalityI) (simp_all add: nth_append)

lemma sort_key_comp_map:
  "map g (sort_key (\<lambda>x. f (g x)) xs) = sort_key f (map g xs)"
proof (induction xs)
  case Nil
  then show ?case by simp
next
  case (Cons x xs)
  have "map g (insort_key (\<lambda>x. f (g x)) x ys) = insort_key f (g x) (map g ys)" for ys
    by (induction ys) simp_all
  with Cons show ?case by simp
qed

lemma heap_frame:
  "take (length h) (fst (applyFiltersToDefinitions_heap R h definitions opts)) = h"
proof (cases "definitions = []")
  case True
  then show ?thesis by (simp add: applyFiltersToDefinitions_heap_def)
next
  case False
  have "take (length h) (fold (\<lambda>r hp. hp[r := g (hp ! r)])
          (filter P [length h ..< length h + length definitions])
          (h @ map (\<lambda>r. h ! r) definitions)) = h" for g P
    by (subst fold_update_frame) simp_all
  with False show ?thesis
    by (simp add: applyFiltersToDefinitions_heap_def deepCopy_def Let_def)
qed

lemma heap_refines:
  "(case applyFiltersToDefinitions_heap R h definitions opts of
      (h', final) \<Rightarrow> map (\<lambda>r. h' ! r) final)
   = applyFiltersToDefinitions R (map (\<lambda>r. h ! r) definitions) opts"
proof (cases "definitions = []")
  case True
  then show ?thesis
    by (simp add: applyFiltersToDefinitions_heap_def applyFiltersToDefinitions_def)
next
  case False
  define vs where "vs = map (\<lambda>r. h ! r) definitions"
  define h1 where "h1 = h @ vs"
  define copy where "copy = [length h ..< length h + length definitions]"
  define E where "E = survivorIds R vs opts"
  define result where "result = filter (\<lambda>r. selected E (h1 ! r)) copy"
  define Fi where "Fi = new_Set (map (\<lambda>r. def_id (h1 ! r)) result)"
  define h2 where "h2 = fold (\<lambda>r hp. hp[r := rebuild Fi (hp ! r)]) result h1"
  have copy_vals: "map (\<lambda>r. h1 ! r) copy = vs"
    unfolding h1_def copy_def vs_def by (rule map_nth_copy)
  have res_vals: "map (\<lambda>r. h1 ! r) result = filter (selected E) vs"
    unfolding result_def copy_vals [symmetric] by (simp add: filter_map comp_def)
  have Fi_eq: "Fi = new_Set (map def_id (filter (selected E) vs))"
    unfolding Fi_def res_vals [symmetric] by (simp add: comp_def)
  have copy_bound: "r < length h1" if "r \<in> set copy" for r
    using that by (auto simp: copy_def h1_def vs_def)
  have dist: "distinct result"
    by (simp add: result_def copy_def)
  have h2_nth: "h2 ! r = touch E Fi (h1 ! r)" if "r \<in> set copy" for r
    unfolding h2_def using fold_update_nth [OF dist copy_bound [OF that]] that
    by (simp add: touch_def result_def)
  have metas: "map (\<lambda>r. h2 ! r) (filter (\<lambda>r. isMeta (h1 ! r)) copy)
                 = map (touch E Fi) (filter isMeta vs)"
  proof -
    have "map (\<lambda>r. h2 ! r) (filter (\<lambda>r. isMeta (h1 ! r)) copy)
            = map (touch E Fi) (map (\<lambda>r. h1 ! r) (filter (\<lambda>r. isMeta (h1 ! r)) copy))"
      using h2_nth by simp
    also have "map (\<lambda>r. h1 ! r) (filter (\<lambda>r. isMeta (h1 ! r)) copy) = filter isMeta vs"
      unfolding copy_vals [symmetric] by (simp add: filter_map comp_def)
    finally show ?thesis .
  qed
  have res: "map (\<lambda>r. h2 ! r) result = map (touch E Fi) (filter (selected E) vs)"
  proof -
    have "map (\<lambda>r. h2 ! r) result = map (touch E Fi) (map (\<lambda>r. h1 ! r) result)"
      using h2_nth by (simp add: result_def)
    then show ?thesis by (simp only: res_vals)
  qed
  have "map (\<lambda>r. h2 ! r)
          (sort_key (\<lambda>r. startLine (h2 ! r)) (filter (\<lambda>r. isMeta (h1 ! r)) copy @ result))
        = sort_key startLine (map (touch E Fi) (filter isMeta vs)
                              @ map (touch E Fi) (filter (selected E) vs))"
    by (simp only: sort_key_comp_map map_append metas res)
  also have "\<dots> = applyFiltersToDefinitions R vs opts"
    using False
    by (simp add: applyFiltersToDefinitions_def materialized_def Let_def E_def Fi_eq vs_def)
  finally have main: "map (\<lambda>r. h2 ! r)
          (sort_key (\<lambda>r. startLine (h2 ! r)) (filter (\<lambda>r. isMeta (h1 ! r)) copy @ result))
        = applyFiltersToDefinitions R vs opts" .
  have "applyFiltersToDefinitions_heap R h definitions opts
          = (h2, sort_key (\<lambda>r. startLine (h2 ! r)) (filter (\<lambda>r. isMeta (h1 ! r)) copy @ result))"
    using False copy_vals
    by (simp add: applyFiltersToDefinitions_heap_def deepCopy_def Let_def
        h2_def Fi_def result_def E_def h1_def copy_def vs_def)
  with main show ?thesis
    by (simp add: vs_def)
qed

text \<open>
  C10. The filter leaves every object that existed before the call as it was, in all
  fields: the store it returns starts with the store it was given, and so each
  definition of the input list reads as before. The array it returns holds, in the
  objects it points to, exactly the list that \<open>applyFiltersToDefinitions\<close> computes on
  the input's values.
\<close>

theorem filter_keeps_input:
  "take (length h) (fst (applyFiltersToDefinitions_heap newRegExp h definitions filterOptions)) = h
   \<and> (\<forall>r \<in> set definitions. r < length h \<longrightarrow>
         fst (applyFiltersToDefinitions_heap newRegExp h definitions filterOptions) ! r = h ! r)
   \<and> (case applyFiltersToDefinitions_heap newRegExp h definitions filterOptions of
         (h', final) \<Rightarrow> map (\<lambda>r. h' ! r) final)
       = applyFiltersToDefinitions newRegExp (map (\<lambda>r. h ! r) definitions) filterOptions"
proof (intro conjI ballI impI)
  show frame: "take (length h)
      (fst (applyFiltersToDefinitions_heap newRegExp h definitions filterOptions)) = h"
    by (rule heap_frame)
  show "fst (applyFiltersToDefinitions_heap newRegExp h definitions filterOptions) ! r = h ! r"
    if "r < length h" for r
  proof -
    from that have "h ! r
      = take (length h) (fst (applyFiltersToDefinitions_heap newRegExp h definitions filterOptions)) ! r"
      by (simp only: frame)
    also from that
    have "\<dots> = fst (applyFiltersToDefinitions_heap newRegExp h definitions filterOptions) ! r"
      by (rule nth_take)
    finally show ?thesis by simp
  qed
  show "(case applyFiltersToDefinitions_heap newRegExp h definitions filterOptions of
         (h', final) \<Rightarrow> map (\<lambda>r. h' ! r) final)
       = applyFiltersToDefinitions newRegExp (map (\<lambda>r. h ! r) definitions) filterOptions"
    by (rule heap_refines)
qed

theorem filter_keeps_input_witness:
  "applyFiltersToDefinitions_heap literalRegExp nested [0, 1, 2] methodsNotInner
     = (nested @ [Outer, Inner, Run\<lparr>parentId := None\<rparr>], [5])
   \<and> fst (applyFiltersToDefinitions_heap literalRegExp nested [0, 1, 2] methodsNotInner) ! 2 = Run
   \<and> parentId Run = Some ''def-1''"
proof -
  have out: "applyFiltersToDefinitions_heap literalRegExp nested [0, 1, 2] methodsNotInner
               = (nested @ [Outer, Inner, Run\<lparr>parentId := None\<rparr>], [5])"
    by code_simp
  have inp: "(2::nat) < length nested" "nested ! 2 = Run" "parentId Run = Some ''def-1''"
    by code_simp+
  from filter_keeps_input [of nested literalRegExp "[0, 1, 2]" methodsNotInner] inp(1,2)
  have "fst (applyFiltersToDefinitions_heap literalRegExp nested [0, 1, 2] methodsNotInner) ! 2 = Run"
    by simp
  with out inp show ?thesis by simp
qed

section \<open>Properties of the extractor\<close>

subsection \<open>Calls\<close>

lemma fold_set_add:
  "fold set_add xs acc = acc @ spec_first_seen (filter (\<lambda>y. y \<notin> set acc) xs)"
proof (induction xs arbitrary: acc)
  case Nil
  then show ?case by simp
next
  case (Cons x xs)
  show ?case
  proof (cases "x \<in> set acc")
    case True
    then have "set_add x acc = acc" by (simp add: set_add_def)
    with True show ?thesis by (simp add: Cons.IH)
  next
    case False
    then have add: "set_add x acc = acc @ [x]" by (simp add: set_add_def)
    have "filter (\<lambda>y. y \<notin> set (acc @ [x])) xs
            = filter (\<lambda>y. y \<noteq> x) (filter (\<lambda>y. y \<notin> set acc) xs)"
      by (induction xs) auto
    with False add show ?thesis by (simp add: Cons.IH)
  qed
qed

lemma new_Set_first_seen: "new_Set xs = spec_first_seen xs"
  by (simp add: new_Set_def fold_set_add)

lemma distinct_set_add: "distinct acc \<Longrightarrow> distinct (set_add x acc)"
  by (simp add: set_add_def)

lemma distinct_fold_set_add: "distinct acc \<Longrightarrow> distinct (fold set_add xs acc)"
  by (induction xs arbitrary: acc) (simp_all add: distinct_set_add)

lemma distinct_new_Set: "distinct (new_Set xs)"
  by (simp add: new_Set_def distinct_fold_set_add)

lemma calledNames_fold:
  "fold (\<lambda>callMatch names.
             case captureNode callMatch ''call_name'' of
               None \<Rightarrow> names
             | Some callNameNode \<Rightarrow> set_add (node_text callNameNode) names) cms acc
   = fold set_add (calleeNames cms) acc"
  by (induction cms arbitrary: acc) (simp_all add: calleeNames_def split: option.splits)

lemma calledNames_eq: "calledNames cms = new_Set (calleeNames cms)"
  by (simp add: calledNames_def new_Set_def calledNames_fold)

lemma spec_first_seen_Nil_iff [simp]: "spec_first_seen xs = [] \<longleftrightarrow> xs = []"
  by (cases xs) simp_all

lemma findCalls_spec: "findCalls env language langQueries node = spec_calls env language langQueries node"
  by (simp add: findCalls_def spec_calls_def calledNames_eq new_Set_first_seen
      split: option.splits)

lemma findCalls_distinct:
  "findCalls env language langQueries node = Some cs \<Longrightarrow> distinct cs \<and> cs \<noteq> []"
  by (auto simp: findCalls_def calledNames_eq distinct_new_Set split: option.splits if_splits)

text \<open>
  C8. A match of a callable kind with a name, an anchor and a parameter block, whose
  parameter captures can be read, always pushes a definition. Its field \<^verbatim>\<open>calls\<close> is the
  one the specification describes: when present it is a non-empty list without
  duplicates, the callee names in first-seen order; it is absent when no call is
  found and when the call query fails. With a call query that throws the same
  definition is pushed, without \<^verbatim>\<open>calls\<close>.
\<close>

theorem calls_field:
  assumes "captureNode m ''name'' = Some nameNode"
    and "captureNode m defType = Some definitionNode"
    and "isCallable defType"
    and "captureNode m ''params'' = Some paramsNode"
    and "captures env language queryStr paramsNode = Some paramCaptures"
  shows "\<exists>d. processMatch env language langQueries defType queryStr code idCounter m
               = Inr (Some d, Suc idCounter)
             \<and> def_id d = Some (generateId idCounter)
             \<and> def_type d = defType
             \<and> name d = node_text nameNode
             \<and> calls d = spec_calls env language langQueries definitionNode
             \<and> (case calls d of None \<Rightarrow> True | Some cs \<Rightarrow> distinct cs \<and> cs \<noteq> [])
             \<and> processMatch (env\<lparr>matches := (\<lambda>l q n. None)\<rparr>) language langQueries defType
                   queryStr code idCounter m
                 = Inr (Some (d\<lparr>calls := None\<rparr>), Suc idCounter)"
proof -
  define d0 where "d0 = withParameters env paramsNode paramCaptures
    ((newDefinition defType idCounter m nameNode definitionNode)
       \<lparr>complexity := Some (calculateComplexity (Some definitionNode))\<rparr>)"
  define rt where "rt = withReturnType env code definitionNode (captureNode m ''return_type'')"
  have rt_fields: "def_id (rt d) = def_id d" "def_type (rt d) = def_type d"
    "name (rt d) = name d" "calls (rt d) = calls d"
    "rt (d\<lparr>calls := x\<rparr>) = (rt d)\<lparr>calls := x\<rparr>" for d x
    by (simp_all add: rt_def withReturnType_def split: option.splits)
  have d0_fields: "def_id d0 = Some (generateId idCounter)" "def_type d0 = defType"
    "name d0 = node_text nameNode" "calls d0 = None"
    by (simp_all add: d0_def withParameters_def newDefinition_def Let_def)
  have run: "processMatch env' language langQueries defType queryStr code idCounter m
               = Inr (Some (withReturnType env' code definitionNode (captureNode m ''return_type'')
                              (withCalls env' language langQueries definitionNode
                                 (withParameters env' paramsNode paramCaptures
                                    ((newDefinition defType idCounter m nameNode definitionNode)
                                       \<lparr>complexity := Some (calculateComplexity
                                                              (Some definitionNode))\<rparr>)))),
                      Suc idCounter)"
    if "captures env' language queryStr paramsNode = Some paramCaptures" for env'
    using assms(1-4) that by (simp add: processMatch_def)
  have good: "case findCalls env language langQueries definitionNode of
          None \<Rightarrow> True | Some cs \<Rightarrow> distinct cs \<and> cs \<noteq> []"
    using findCalls_distinct [of env language langQueries definitionNode]
    by (simp split: option.splits)
  have fail: "findCalls (env\<lparr>matches := (\<lambda>l q n. None)\<rparr>) language langQueries definitionNode
                   = None"
    by (simp add: findCalls_def split: option.splits)
  have 1: "processMatch env language langQueries defType queryStr code idCounter m
             = Inr (Some (rt (withCalls env language langQueries definitionNode d0)),
                    Suc idCounter)"
    using run [OF assms(5)] by (simp add: rt_def d0_def)
  have same: "withParameters (env\<lparr>matches := f\<rparr>) = withParameters env"
    "withReturnType (env\<lparr>matches := f\<rparr>) = withReturnType env" for f
    by (simp_all add: fun_eq_iff withParameters_def fallbackParameters_def withReturnType_def
        Let_def split: option.splits)
  have 2: "processMatch (env\<lparr>matches := (\<lambda>l q n. None)\<rparr>) language langQueries defType
             queryStr code idCounter m = Inr (Some (rt d0), Suc idCounter)"
    using run [of "env\<lparr>matches := (\<lambda>l q n. None)\<rparr>"] assms(5)
    by (simp add: rt_def d0_def withCalls_def fail same)
  have d0_calls: "d0\<lparr>calls := None\<rparr> = d0"
    using d0_fields(4) by (cases d0) simp
  show ?thesis
  proof (cases "findCalls env language langQueries definitionNode")
    case None
    with 1 2 d0_fields rt_fields show ?thesis
      by (simp add: withCalls_def findCalls_spec [symmetric])
  next
    case (Some cs)
    with good have "distinct cs \<and> cs \<noteq> []" by simp
    with Some 1 2 d0_fields rt_fields d0_calls show ?thesis
      by (simp add: withCalls_def findCalls_spec [symmetric])
  qed
qed

theorem calls_field_witness:
  "isCallable ''function''
   \<and> captureNode callerMatch ''name'' \<noteq> None
   \<and> captureNode callerMatch ''function'' = Some (hd (node_children caller))
   \<and> captureNode callerMatch ''params'' \<noteq> None
   \<and> map_option calleeNames
        (matches exampleHost ''javascript'' ''call-query'' (hd (node_children caller)))
       = Some [''g'', ''h'', ''g'']
   \<and> (\<exists>d. processMatch exampleHost ''javascript'' jsQueries ''function'' ''function-query''
              ''caller'' 0 callerMatch = Inr (Some d, 1)
            \<and> calls d = Some [''g'', ''h'']
            \<and> processMatch (exampleHost\<lparr>matches := (\<lambda>l q n. None)\<rparr>) ''javascript'' jsQueries
                  ''function'' ''function-query'' ''caller'' 0 callerMatch
                = Inr (Some (d\<lparr>calls := None\<rparr>), 1))"
proof -
  have c: "isCallable ''function''"
    by (simp add: isCallable_def)
  have n: "captureNode callerMatch ''name''
             = Some (SyntaxNode ''identifier'' (Some ''name'') ''f'' (0, 9) (0, 10) [])"
    by code_simp
  have f: "captureNode callerMatch ''function'' = Some (hd (node_children caller))"
    by code_simp
  have p: "captureNode callerMatch ''params''
             = Some (SyntaxNode ''formal_parameters'' (Some ''parameters'') ''()'' (0, 10) (0, 12) [])"
    by code_simp
  have pc: "captures exampleHost ''javascript'' ''function-query''
              (SyntaxNode ''formal_parameters'' (Some ''parameters'') ''()'' (0, 10) (0, 12) [])
            = Some []"
    by code_simp
  have names: "map_option calleeNames
        (matches exampleHost ''javascript'' ''call-query'' (hd (node_children caller)))
       = Some [''g'', ''h'', ''g'']"
    by code_simp
  have sc: "spec_calls exampleHost ''javascript'' jsQueries (hd (node_children caller))
              = Some [''g'', ''h'']"
    by code_simp
  from calls_field [OF n f c p pc, of jsQueries "''caller''" 0] sc
  have "\<exists>d. processMatch exampleHost ''javascript'' jsQueries ''function'' ''function-query''
              ''caller'' 0 callerMatch = Inr (Some d, 1)
            \<and> calls d = Some [''g'', ''h'']
            \<and> processMatch (exampleHost\<lparr>matches := (\<lambda>l q n. None)\<rparr>) ''javascript'' jsQueries
                  ''function'' ''function-query'' ''caller'' 0 callerMatch
                = Inr (Some (d\<lparr>calls := None\<rparr>), 1)"
    by auto
  with c n f p names show ?thesis by simp
qed

section \<open>Properties of the scan\<close>

lemma parseFiles_steps: "parseFiles env fs = fold (parseStep env) fs []"
proof -
  have "(\<lambda>absoluteFilePath results.
             case readFile env absoluteFilePath of
               Inl message \<Rightarrow>
                 assign absoluteFilePath
                   [errorDefinition (''Failed to read/parse: '' @ message)] results
             | Inr content \<Rightarrow>
                 let definitions = parseCodeWithTreeSitter env content absoluteFilePath
                 in if definitions \<noteq> [] then assign absoluteFilePath definitions results
                    else results) = parseStep env"
    by (auto simp: fun_eq_iff parseStep_def scanFile_def Let_def split: sum.splits)
  then show ?thesis by (simp add: parseFiles_def)
qed

lemma parse_degrades:
  assumes "languageMap env (extname env filePath) = None
           \<or> (\<exists>language. languageMap env (extname env filePath) = Some language
                 \<and> (parse env language code = None \<or> queries env (extname env filePath) = None))"
  shows "\<exists>nm. parseCodeWithTreeSitter env code filePath = [errorDefinition nm]"
  using assms by (auto simp: parseCodeWithTreeSitter_def Let_def split: option.splits)

lemma isMeta_errorDefinition [simp]: "isMeta (errorDefinition nm)"
  by (simp add: isMeta_def errorDefinition_def)

lemma filter_lone_error:
  "applyFiltersToDefinitions R [errorDefinition nm] opts = [errorDefinition nm]"
  by (simp add: applyFiltersToDefinitions_def materialized_def survivorIds_def touch_def
      selected_def truthy_def errorDefinition_def isMeta_def)

lemma dropKey_assign:
  "dropKey k (assign k' v es) = (if k' = k then dropKey k es else assign k' v (dropKey k es))"
  by (induction es) (auto simp: dropKey_def)

lemma dropKey_parseStep:
  "dropKey k (parseStep env p results)
   = (if p = k then dropKey k results else parseStep env p (dropKey k results))"
  by (simp add: parseStep_def dropKey_assign)

lemma dropKey_fold_parseStep:
  "dropKey k (fold (parseStep env) fs results)
   = fold (parseStep env) (filter (\<lambda>p. p \<noteq> k) fs) (dropKey k results)"
  by (induction fs arbitrary: results) (simp_all add: dropKey_parseStep)

lemma assign_values:
  "(k, v) \<in> set (assign k' v' es) \<Longrightarrow> (k = k' \<and> v = v') \<or> (k, v) \<in> set es"
  by (induction es) (auto split: if_splits)

lemma parseStep_values:
  assumes "\<forall>(k, v) \<in> set results. v = scanFile env k"
  shows "\<forall>(k, v) \<in> set (parseStep env p results). v = scanFile env k"
  using assms by (auto simp: parseStep_def dest!: assign_values)

lemma fold_parseStep_values:
  assumes "\<forall>(k, v) \<in> set results. v = scanFile env k"
  shows "\<forall>(k, v) \<in> set (fold (parseStep env) fs results). v = scanFile env k"
  using assms
proof (induction fs arbitrary: results)
  case Nil
  then show ?case by simp
next
  case (Cons p fs)
  from Cons.prems have "\<forall>(k, v) \<in> set (parseStep env p results). v = scanFile env k"
    by (rule parseStep_values)
  from Cons.IH [OF this] show ?case by simp
qed

lemma filterResults_steps:
  "filterResults env R targetDir results opts = fold (filterStep env R targetDir opts) results []"
proof -
  have "(\<lambda>(absoluteFilePath, definitions) filteredResults.
             let filteredDefs = applyFiltersToDefinitions R definitions opts;
                 hasRealDefinitions = (\<exists>d \<in> set filteredDefs. def_type d \<noteq> ''error'')
             in if hasRealDefinitions
                then assign (relative env targetDir absoluteFilePath) filteredDefs filteredResults
                else filteredResults) = filterStep env R targetDir opts"
    by (auto simp: fun_eq_iff filterStep_def Let_def)
  then show ?thesis by (simp add: filterResults_def)
qed

lemma fold_filterStep_skip:
  assumes "\<forall>e \<in> set es. fst e = k \<longrightarrow> filterStep env R targetDir opts e = (\<lambda>acc. acc)"
  shows "fold (filterStep env R targetDir opts) es acc
         = fold (filterStep env R targetDir opts) (dropKey k es) acc"
  using assms by (induction es arbitrary: acc) (simp_all add: dropKey_def)

lemma scan_omits_failed_file:
  assumes "scanFile env f = [errorDefinition nm]" and "f \<notin> set fs1" and "f \<notin> set fs2"
  shows "filterResults env R targetDir (parseFiles env (fs1 @ f # fs2)) opts
         = filterResults env R targetDir (parseFiles env (fs1 @ fs2)) opts"
proof -
  let ?all = "parseFiles env (fs1 @ f # fs2)"
  have vals: "\<forall>(k, v) \<in> set ?all. v = scanFile env k"
    unfolding parseFiles_steps by (rule fold_parseStep_values) simp
  have skip: "\<forall>e \<in> set ?all. fst e = f \<longrightarrow> filterStep env R targetDir opts e = (\<lambda>acc. acc)"
  proof (intro ballI impI)
    fix e assume "e \<in> set ?all" "fst e = f"
    with vals assms(1) have "snd e = [errorDefinition nm]"
      by (cases e) auto
    moreover have "def_type (errorDefinition nm) = ''error''"
      by (simp add: errorDefinition_def)
    ultimately show "filterStep env R targetDir opts e = (\<lambda>acc. acc)"
      by (simp add: fun_eq_iff filterStep_def filter_lone_error)
  qed
  have "filter (\<lambda>p. p \<noteq> f) fs1 = fs1" "filter (\<lambda>p. p \<noteq> f) fs2 = fs2"
    using assms(2,3) by (auto simp: filter_id_conv)
  then have "dropKey f ?all = parseFiles env (fs1 @ fs2)"
    unfolding parseFiles_steps dropKey_fold_parseStep
    by (simp add: dropKey_def)
  with fold_filterStep_skip [OF skip] show ?thesis
    by (simp add: filterResults_steps)
qed

text \<open>
  C4, as the code has it. When the extractor gives up on a file it returns one
  definition of kind \<^verbatim>\<open>error\<close> with both lines 0 and nothing else. A file that cannot be
  read or on which the extractor gives up does not stop the scan: it is recorded with
  its error definition, and the scan's output is the output of the scan without that
  file. The file itself is not in the output: the scan drops every file whose filtered
  definitions are all errors.
\<close>

theorem failed_file_degrades:
  "(extractionFails env code filePath \<longrightarrow>
      (\<exists>nm. parseCodeWithTreeSitter env code filePath = [errorDefinition nm]
            \<and> def_type (errorDefinition nm) = ''error''
            \<and> startLine (errorDefinition nm) = 0 \<and> endLine (errorDefinition nm) = 0))
   \<and> ((case readFile env f of
          Inl message \<Rightarrow> True
        | Inr content \<Rightarrow> extractionFails env content f)
       \<and> f \<notin> set fs1 \<and> f \<notin> set fs2 \<longrightarrow>
         parseFiles env (fs1 @ f # fs2) \<noteq> parseFiles env (fs1 @ fs2)
         \<and> (\<exists>nm. map_of (parseFiles env (fs1 @ f # fs2)) f = Some [errorDefinition nm])
         \<and> performScan env newRegExp fuel directory (fs1 @ f # fs2) outputFormat detailLevel
              filterOptions
           = performScan env newRegExp fuel directory (fs1 @ fs2) outputFormat detailLevel
              filterOptions)"
proof (intro conjI impI)
  assume "extractionFails env code filePath"
  then have "\<exists>nm. parseCodeWithTreeSitter env code filePath = [errorDefinition nm]"
    by (intro parse_degrades) (auto simp: extractionFails_def split: option.splits)
  then show "\<exists>nm. parseCodeWithTreeSitter env code filePath = [errorDefinition nm]
            \<and> def_type (errorDefinition nm) = ''error''
            \<and> startLine (errorDefinition nm) = 0 \<and> endLine (errorDefinition nm) = 0"
    by (auto simp: errorDefinition_def)
next
  assume h: "(case readFile env f of
          Inl message \<Rightarrow> True
        | Inr content \<Rightarrow> extractionFails env content f)
       \<and> f \<notin> set fs1 \<and> f \<notin> set fs2"
  have "\<exists>nm. scanFile env f = [errorDefinition nm]"
  proof (cases "readFile env f")
    case (Inl message)
    then have "scanFile env f = [errorDefinition (''Failed to read/parse: '' @ message)]"
      by (simp add: scanFile_def)
    then show ?thesis ..
  next
    case (Inr content)
    with h have "extractionFails env content f" by simp
    then have "\<exists>nm. parseCodeWithTreeSitter env content f = [errorDefinition nm]"
      by (intro parse_degrades) (auto simp: extractionFails_def split: option.splits)
    with Inr show ?thesis by (simp add: scanFile_def)
  qed
  then obtain nm where nm: "scanFile env f = [errorDefinition nm]" ..
  from h have f1: "f \<notin> set fs1" and f2: "f \<notin> set fs2" by simp_all
  have keys: "fst ` set (fold (parseStep env) fs results) \<subseteq> set fs \<union> fst ` set results"
    for fs results
  proof (induction fs arbitrary: results)
    case Nil
    then show ?case by simp
  next
    case (Cons p fs)
    have "fst ` set (parseStep env p results) \<subseteq> insert p (fst ` set results)"
      by (auto simp: parseStep_def dest!: assign_values)
    with Cons.IH [of "parseStep env p results"] show ?case by auto
  qed
  have present: "map_of (fold (parseStep env) fs results) k = Some v"
    if "map_of results k = Some v" "k \<notin> set fs" for fs results k v
    using that
  proof (induction fs arbitrary: results)
    case Nil
    then show ?case by simp
  next
    case (Cons p fs)
    have "map_of (assign p w results) k = Some v" for w
      using Cons.prems by (induction results) (auto split: if_splits)
    with Cons.prems have "map_of (parseStep env p results) k = Some v"
      by (simp add: parseStep_def)
    with Cons.IH [of "parseStep env p results"] Cons.prems show ?case by simp
  qed
  have fresh: "map_of (assign k v es) k = Some v" for k v and es :: "(string \<times> Definition list) list"
    by (induction es) auto
  have entry: "map_of (parseFiles env (fs1 @ f # fs2)) f = Some [errorDefinition nm]"
    unfolding parseFiles_steps
    using present [of "parseStep env f (fold (parseStep env) fs1 [])" f "[errorDefinition nm]" fs2]
      f2 nm
    by (simp add: parseStep_def fresh)
  then show "\<exists>nm. map_of (parseFiles env (fs1 @ f # fs2)) f = Some [errorDefinition nm]" ..
  have "f \<notin> fst ` set (parseFiles env (fs1 @ fs2))"
    using keys [of "fs1 @ fs2" "[]"] f1 f2 unfolding parseFiles_steps by auto
  then have "map_of (parseFiles env (fs1 @ fs2)) f = None"
    by (simp add: map_of_eq_None_iff)
  with entry show "parseFiles env (fs1 @ f # fs2) \<noteq> parseFiles env (fs1 @ fs2)"
    by auto
  from scan_omits_failed_file [OF nm f1 f2]
  show "performScan env newRegExp fuel directory (fs1 @ f # fs2) outputFormat detailLevel
              filterOptions
           = performScan env newRegExp fuel directory (fs1 @ fs2) outputFormat detailLevel
              filterOptions"
    by (simp add: performScan_def)
qed


text \<open>
  The claim as stated fails in its last part: a scan of one file of an unsupported
  type records the error definition and then outputs no file at all, in each format.
\<close>

theorem failed_file_degrades_counterexample:
  "parseCodeWithTreeSitter exampleHost ''notes'' ''notes.txt''
     = [errorDefinition ''Unsupported file type'']
   \<and> parseFiles exampleHost [''notes.txt'']
       = [(''notes.txt'', [errorDefinition ''Unsupported file type''])]
   \<and> performScan exampleHost literalRegExp 1 ''dir'' [''notes.txt''] xml standard noFilter
       = Some (XmlOutput (XmlElement ''CodeScanResults'' [] []))
   \<and> performScan exampleHost literalRegExp 1 ''dir'' [''notes.txt''] json standard noFilter
       = Some (JsonOutput (JObject []))
   \<and> performScan exampleHost literalRegExp 1 ''dir'' [''notes.txt''] markdown standard noFilter
       = Some (MarkdownOutput (''# Code Scan Results for dir'' @ newline @ newline))"
  by code_simp


theorem failed_file_degrades_witness:
  "extractionFails exampleHost ''notes'' ''notes.txt''
   \<and> readFile exampleHost ''notes.txt'' = Inr ''notes''
   \<and> ''notes.txt'' \<notin> set [''caller.js'']
   \<and> parseCodeWithTreeSitter exampleHost ''notes'' ''notes.txt''
       = [errorDefinition ''Unsupported file type'']
   \<and> performScan exampleHost literalRegExp 2 ''dir'' [''caller.js'', ''notes.txt''] json minimal
        noFilter
       = Some (JsonOutput (JObject [(''caller.js'',
            JArray [JObject [(''type'', JScalar (Str ''function'')),
                             (''name'', JScalar (Str ''f''))]])]))"
proof -
  have a: "extractionFails exampleHost ''notes'' ''notes.txt''"
    and b: "readFile exampleHost ''notes.txt'' = Inr ''notes''"
    and c: "''notes.txt'' \<notin> set [''caller.js'']"
    by code_simp+
  have d: "performScan exampleHost literalRegExp 2 ''dir'' ([''caller.js''] @ []) json minimal
        noFilter
       = Some (JsonOutput (JObject [(''caller.js'',
            JArray [JObject [(''type'', JScalar (Str ''function'')),
                             (''name'', JScalar (Str ''f''))]])]))"
    by code_simp
  have e: "parseCodeWithTreeSitter exampleHost ''notes'' ''notes.txt''
       = [errorDefinition ''Unsupported file type'']"
    by code_simp
  from failed_file_degrades [of exampleHost "''notes''" "''notes.txt''" "''notes.txt''"
      "[''caller.js'']" "[]" literalRegExp 2 "''dir''" json minimal noFilter] a b c d
  have "performScan exampleHost literalRegExp 2 ''dir'' [''caller.js'', ''notes.txt''] json minimal
        noFilter
       = Some (JsonOutput (JObject [(''caller.js'',
            JArray [JObject [(''type'', JScalar (Str ''function'')),
                             (''name'', JScalar (Str ''f''))]])]))"
    by simp
  with a b c e show ?thesis by simp
qed

section \<open>Properties of the hierarchy\<close>

lemma point_le_trans: "point_le p q \<Longrightarrow> point_le q r \<Longrightarrow> point_le p r"
  by (auto simp: point_le_def)

lemma point_lt_le_trans: "point_lt p q \<Longrightarrow> point_le q r \<Longrightarrow> point_lt p r"
  by (auto simp: point_le_def point_lt_def)

lemma not_point_le: "\<not> point_le p q \<longleftrightarrow> point_lt q p"
  by (auto simp: point_le_def point_lt_def)

lemma not_point_lt: "\<not> point_lt p q \<longleftrightarrow> point_le q p"
  by (auto simp: point_le_def point_lt_def)

lemma descend_unfold: "descend n pt = n # descendChildren (node_children n) pt"
  by (cases n) simp

lemma descend_inside:
  "\<forall>m \<in> set (tl (descend n pt)). containsPoint m pt"
  "\<forall>m \<in> set (descendChildren cs pt). containsPoint m pt"
proof (induction n pt and cs pt rule: descend_descendChildren.induct)
  case (1 ty fl tx sp ep cs pt)
  then show ?case by simp
next
  case (2 pt)
  then show ?case by simp
next
  case (3 c cs pt)
  show ?case
  proof (cases "point_le (endPosition c) pt")
    case True
    with 3 show ?thesis by simp
  next
    case notEnd: False
    show ?thesis
    proof (cases "point_lt pt (startPosition c)")
      case True
      with notEnd show ?thesis by simp
    next
      case False
      with notEnd have "containsPoint c pt"
        by (simp add: containsPoint_def not_point_le not_point_lt)
      moreover from 3(2) notEnd False
      have "\<forall>m \<in> set (tl (descend c pt)). containsPoint m pt" by simp
      ultimately have "\<forall>m \<in> set (descend c pt). containsPoint m pt"
        by (subst descend_unfold) (simp add: descend_unfold)
      with notEnd False show ?thesis by simp
    qed
  qed
qed

lemma descendChildren_hd:
  "descendChildren cs pt \<noteq> [] \<Longrightarrow> hd (descendChildren cs pt) \<in> set cs"
  by (induction cs) (auto simp: descend_unfold split: if_splits)

lemma wellFormed_child:
  "wellFormed n \<Longrightarrow> c \<in> set (node_children n) \<Longrightarrow>
     point_le (startPosition n) (startPosition c) \<and> point_le (endPosition c) (endPosition n)"
  by (cases n) auto

lemma chain_contains:
  assumes "wellFormed rootNode" and "a \<in> set (parentChain rootNode pt)"
  shows "containsPoint a pt"
proof -
  let ?rest = "descendChildren (node_children rootNode) pt"
  have path: "descend rootNode pt = rootNode # ?rest"
    by (rule descend_unfold)
  have "set (tl (rev ys)) = set (butlast ys)" for ys :: "SyntaxNode list"
    using butlast_rev [of "rev ys"] by (metis rev_rev_ident set_rev)
  from this [of "descend rootNode pt"] assms(2)
  have "a \<in> set (butlast (rootNode # ?rest))"
    unfolding parentChain_def path by simp
  then have "(a = rootNode \<and> ?rest \<noteq> []) \<or> a \<in> set ?rest"
    by (auto split: if_splits dest: in_set_butlastD)
  then show ?thesis
  proof
    assume r: "a = rootNode \<and> ?rest \<noteq> []"
    then have c: "hd ?rest \<in> set (node_children rootNode)"
      by (simp add: descendChildren_hd)
    from r have "hd ?rest \<in> set ?rest" by simp
    with descend_inside(2) have "containsPoint (hd ?rest) pt" by blast
    with wellFormed_child [OF assms(1) c] r show ?thesis
      by (auto simp: containsPoint_def intro: point_le_trans point_lt_le_trans)
  next
    assume "a \<in> set ?rest"
    with descend_inside(2) show ?thesis by blast
  qed
qed

lemma containsPoint_rows:
  "containsPoint a (row, 0) \<Longrightarrow> fst (startPosition a) \<le> row \<and> row \<le> fst (endPosition a)"
  by (auto simp: containsPoint_def point_le_def point_lt_def)

lemma isParentFor_key: "isParentFor a d = (\<lambda>p. isParentKey a (def_id d) (keyFields p))"
  by (simp add: fun_eq_iff isParentFor_def isParentKey_def keyFields_def)

lemma findIndex_map: "findIndex P (map f xs) = findIndex (\<lambda>x. P (f x)) xs"
  by (induction xs) simp_all

lemma findIndex_SomeD:
  "findIndex P xs = Some j \<Longrightarrow> j < length xs \<and> P (xs ! j) \<and> (\<forall>k<j. \<not> P (xs ! k))"
proof (induction xs arbitrary: j)
  case Nil
  then show ?case by simp
next
  case (Cons x xs)
  show ?case
  proof (cases "P x")
    case True
    with Cons.prems show ?thesis by simp
  next
    case False
    with Cons.prems obtain j' where j': "findIndex P xs = Some j'" "j = Suc j'"
      by auto
    from Cons.IH [OF j'(1)] False j'(2) show ?thesis
      by (auto simp: nth_Cons split: nat.splits)
  qed
qed

lemma findIndex_NoneD: "findIndex P xs = None \<Longrightarrow> \<forall>x \<in> set xs. \<not> P x"
  by (induction xs) (auto split: if_splits)

lemma findParent_cong:
  assumes "map keyFields ds = map keyFields ds'" and "def_id d = def_id d'"
  shows "findParent ds d chain = findParent ds' d' chain"
proof (induction chain)
  case Nil
  then show ?case by simp
next
  case (Cons a chain)
  have "findIndex (isParentFor a d) ds = findIndex (isParentKey a (def_id d)) (map keyFields ds)"
    by (simp add: isParentFor_key findIndex_map)
  also have "\<dots> = findIndex (isParentFor a d') ds'"
    by (simp add: isParentFor_key findIndex_map assms)
  finally show ?case using Cons by (simp split: option.splits)
qed

lemma findParent_SomeD:
  assumes "findParent ds d chain = Some j"
  shows "j < length ds
         \<and> (\<exists>a. firstMatchingAncestor ds d chain a \<and> isParentFor a d (ds ! j)
                \<and> (\<forall>k<j. \<not> isParentFor a d (ds ! k)))"
  using assms
proof (induction chain)
  case Nil
  then show ?case by simp
next
  case (Cons a chain)
  show ?case
  proof (cases "findIndex (isParentFor a d) ds")
    case None
    with Cons.prems have "findParent ds d chain = Some j" by simp
    from Cons.IH [OF this] obtain b inner outer where j: "j < length ds"
      and b: "chain = inner @ b # outer" "\<exists>p \<in> set ds. isParentFor b d p"
        "\<forall>a' \<in> set inner. \<forall>p \<in> set ds. \<not> isParentFor a' d p"
        "isParentFor b d (ds ! j)" "\<forall>k<j. \<not> isParentFor b d (ds ! k)"
      unfolding firstMatchingAncestor_def by blast
    from b(1) have "a # chain = (a # inner) @ b # outer" by simp
    moreover from b(3) findIndex_NoneD [OF None]
    have "\<forall>a' \<in> set (a # inner). \<forall>p \<in> set ds. \<not> isParentFor a' d p" by simp
    ultimately have "firstMatchingAncestor ds d (a # chain) b"
      unfolding firstMatchingAncestor_def using b(2) by blast
    with j b(4,5) show ?thesis by blast
  next
    case (Some j')
    with Cons.prems have "j' = j" by simp
    with findIndex_SomeD [OF Some] have j: "j < length ds" "isParentFor a d (ds ! j)"
      "\<forall>k<j. \<not> isParentFor a d (ds ! k)" by simp_all
    have "a # chain = [] @ a # chain" by simp
    moreover from j have "\<exists>p \<in> set ds. isParentFor a d p" by auto
    ultimately have "firstMatchingAncestor ds d (a # chain) a"
      unfolding firstMatchingAncestor_def by (metis empty_iff list.set(1))
    with j show ?thesis by blast
  qed
qed

lemma firstMatchingAncestor_cong:
  assumes "map keyFields ds = map keyFields ds'" and "def_id d = def_id d'"
  shows "firstMatchingAncestor ds d chain a = firstMatchingAncestor ds' d' chain a"
proof -
  have "(\<exists>p \<in> set ds. isParentFor b d p) = (\<exists>p \<in> set ds'. isParentFor b d' p)" for b
  proof -
    have "(\<exists>p \<in> set ds. isParentFor b d p)
            = (\<exists>k \<in> set (map keyFields ds). isParentKey b (def_id d) k)"
      by (simp add: isParentFor_key)
    also have "\<dots> = (\<exists>p \<in> set ds'. isParentFor b d' p)"
      by (simp add: isParentFor_key assms)
    finally show ?thesis .
  qed
  then have "(\<forall>p \<in> set ds. \<not> isParentFor b d p) = (\<forall>p \<in> set ds'. \<not> isParentFor b d' p)"
    for b by blast
  with \<open>\<And>b. (\<exists>p \<in> set ds. isParentFor b d p) = (\<exists>p \<in> set ds'. isParentFor b d' p)\<close>
  show ?thesis
    unfolding firstMatchingAncestor_def by simp
qed

lemma keyFields_updates [simp]:
  "keyFields (d\<lparr>parentId := x\<rparr>) = keyFields d"
  "keyFields (d\<lparr>children := y\<rparr>) = keyFields d"
  by (simp_all add: keyFields_def)

lemma map_keyFields_update:
  "keyFields x = keyFields (ds ! i) \<Longrightarrow> map keyFields (ds[i := x]) = map keyFields ds"
  by (simp add: map_update) (metis list_update_id map_update)

lemma linkParent_keys: "map keyFields (linkParent rootNode i ds) = map keyFields ds"
proof (cases "findParent ds (ds ! i) (parentChain rootNode (nat (startLine (ds ! i) - 1), 0))")
  case None
  then show ?thesis by (simp add: linkParent_def)
next
  case (Some j)
  let ?ds1 = "ds[i := (ds ! i)\<lparr>parentId := def_id (ds ! j)\<rparr>]"
  have 1: "map keyFields ?ds1 = map keyFields ds"
    by (rule map_keyFields_update) simp
  have "map keyFields (?ds1[j := (?ds1 ! j)\<lparr>children := y\<rparr>]) = map keyFields ?ds1" for y
    by (rule map_keyFields_update) simp
  with 1 Some show ?thesis
    by (simp add: linkParent_def Let_def)
qed

lemma linkParent_length [simp]: "length (linkParent rootNode i ds) = length ds"
  using linkParent_keys [of rootNode i ds] by (metis length_map)

lemma linkParent_parentId:
  assumes "i < length ds" and "k < length ds"
  shows "parentId (linkParent rootNode i ds ! k)
         = (if k = i then expectedParent rootNode ds i else parentId (ds ! k))"
proof (cases "findParent ds (ds ! i) (chainOf rootNode (ds ! i))")
  case None
  then show ?thesis by (simp add: linkParent_def expectedParent_def chainOf_def)
next
  case (Some j)
  from findParent_SomeD [OF Some] have j: "j < length ds"
    and "\<exists>a. isParentFor a (ds ! i) (ds ! j)" by blast+
  then have "def_id (ds ! j) \<noteq> def_id (ds ! i)"
    by (auto simp: isParentFor_def)
  then have ji: "j \<noteq> i" by auto
  let ?ds1 = "ds[i := (ds ! i)\<lparr>parentId := def_id (ds ! j)\<rparr>]"
  have A: "parentId ((?ds1[j := (?ds1 ! j)\<lparr>children := y\<rparr>]) ! k)
          = (if k = i then def_id (ds ! j) else parentId (ds ! k))" for y
    using assms j ji by (cases "k = j") (auto simp: nth_list_update)
  have B: "parentId (?ds1 ! k) = (if k = i then def_id (ds ! j) else parentId (ds ! k))"
    using assms by (auto simp: nth_list_update)
  have ex: "expectedParent rootNode ds i = def_id (ds ! j)"
    using Some by (simp add: expectedParent_def)
  show ?thesis
  proof (cases "truthy (def_id (ds ! i))")
    case True
    with Some have "linkParent rootNode i ds
        = ?ds1[j := (?ds1 ! j)\<lparr>children :=
                     Some ((case children (?ds1 ! j) of None \<Rightarrow> [] | Some cs \<Rightarrow> cs)
                           @ [the (def_id (ds ! i))])\<rparr>]"
      by (simp add: linkParent_def Let_def chainOf_def)
    then show ?thesis by (simp only: A ex)
  next
    case False
    with Some have "linkParent rootNode i ds = ?ds1"
      by (simp add: linkParent_def Let_def chainOf_def)
    then show ?thesis by (simp only: B ex)
  qed
qed

lemma keys_nth:
  assumes "map keyFields ds = map keyFields ds0" and "k < length ds0"
  shows "keyFields (ds ! k) = keyFields (ds0 ! k)"
  using assms by (metis length_map nth_map)

lemma expectedParent_cong:
  assumes "map keyFields ds = map keyFields ds0" and "i < length ds0"
    and "parentId (ds ! i) = parentId (ds0 ! i)"
  shows "expectedParent rootNode ds i = expectedParent rootNode ds0 i"
proof -
  from keys_nth [OF assms(1,2)] have same: "def_id (ds ! i) = def_id (ds0 ! i)"
    "startLine (ds ! i) = startLine (ds0 ! i)"
    by (simp_all add: keyFields_def)
  have fp: "findParent ds (ds ! i) chain = findParent ds0 (ds0 ! i) chain" for chain
    using assms(1) same(1) by (rule findParent_cong)
  have "def_id (ds ! j) = def_id (ds0 ! j)" if "j < length ds0" for j
    using keys_nth [OF assms(1) that] by (simp add: keyFields_def)
  moreover have "j < length ds0" if "findParent ds0 (ds0 ! i) chain = Some j" for j chain
    using findParent_SomeD [OF that] by simp
  ultimately show ?thesis
    unfolding expectedParent_def chainOf_def same(2) fp using assms(3)
    by (auto split: option.splits)
qed

lemma linkParents_invariant:
  assumes "m \<le> length ds0"
  shows "map keyFields (fold (linkParent rootNode) [0 ..< m] ds0) = map keyFields ds0
         \<and> (\<forall>k < length ds0.
               parentId (fold (linkParent rootNode) [0 ..< m] ds0 ! k)
               = (if k < m then expectedParent rootNode ds0 k else parentId (ds0 ! k)))"
  using assms
proof (induction m)
  case 0
  then show ?case by simp
next
  case (Suc m)
  let ?ds = "fold (linkParent rootNode) [0 ..< m] ds0"
  from Suc have keys: "map keyFields ?ds = map keyFields ds0"
    and par: "\<forall>k < length ds0. parentId (?ds ! k)
                = (if k < m then expectedParent rootNode ds0 k else parentId (ds0 ! k))"
    by simp_all
  from keys have len: "length ?ds = length ds0" by (metis length_map)
  from Suc.prems have m: "m < length ds0" by simp
  have step: "fold (linkParent rootNode) [0 ..< Suc m] ds0 = linkParent rootNode m ?ds"
    by simp
  have "expectedParent rootNode ?ds m = expectedParent rootNode ds0 m"
    using keys m par by (intro expectedParent_cong) simp_all
  with par m len
  have "\<forall>k < length ds0. parentId (linkParent rootNode m ?ds ! k)
          = (if k < Suc m then expectedParent rootNode ds0 k else parentId (ds0 ! k))"
    by (auto simp: linkParent_parentId less_Suc_eq)
  with keys show ?case
    unfolding step by (simp add: linkParent_keys)
qed

lemma linkParents_result:
  "map keyFields (linkParents rootNode ds0) = map keyFields ds0"
  "k < length ds0 \<Longrightarrow> parentId (linkParents rootNode ds0 ! k) = expectedParent rootNode ds0 k"
  using linkParents_invariant [of "length ds0" ds0 rootNode]
  by (simp_all add: linkParents_def)

lemma fresh_updates [simp]:
  "fresh (d\<lparr>complexity := a\<rparr>) = fresh d"
  "fresh (d\<lparr>parameters := b\<rparr>) = fresh d"
  "fresh (d\<lparr>parameterCount := c\<rparr>) = fresh d"
  "fresh (d\<lparr>calls := e\<rparr>) = fresh d"
  "fresh (d\<lparr>returnType := f\<rparr>) = fresh d"
  by (simp_all add: fresh_def)

lemma fresh_newDefinition [simp]: "fresh (newDefinition defType n m nameNode definitionNode)"
  by (simp add: fresh_def newDefinition_def Let_def)

lemma fresh_withReturnType [simp]: "fresh (withReturnType env code node rt d) = fresh d"
  by (simp add: withReturnType_def split: option.splits)

lemma fresh_withCalls [simp]: "fresh (withCalls env language lq node d) = fresh d"
  by (simp add: withCalls_def split: option.splits)

lemma fresh_withParameters [simp]: "fresh (withParameters env pn pcs d) = fresh d"
  by (simp add: withParameters_def Let_def)

lemma processMatch_fresh:
  "processMatch env language lq defType queryStr code n m = Inr (Some d, n') \<Longrightarrow> fresh d"
  by (auto simp: processMatch_def Let_def split: option.splits if_splits)

lemma processMatches_fresh:
  assumes "\<forall>d \<in> set (fst st). fresh d"
  shows "\<forall>d \<in> set (fst (processMatches env language lq defType queryStr code ms st)). fresh d"
  using assms
proof (induction ms arbitrary: st)
  case Nil
  then show ?case by simp
next
  case (Cons m ms)
  obtain ds n where st: "st = (ds, n)" by (cases st)
  show ?case
  proof (cases "processMatch env language lq defType queryStr code n m")
    case (Inl n')
    with Cons.prems st show ?thesis by simp
  next
    case (Inr r)
    obtain od n' where r: "r = (od, n')" by (cases r)
    show ?thesis
    proof (cases od)
      case None
      with Inr r st Cons.prems Cons.IH [of "(ds, n')"] show ?thesis by simp
    next
      case (Some d)
      with Inr r have "fresh d" by (auto dest: processMatch_fresh)
      with Some Inr r st Cons.prems Cons.IH [of "(ds @ [d], n')"] show ?thesis by simp
    qed
  qed
qed

lemma processQueries_fresh:
  assumes "\<forall>d \<in> set (fst st). fresh d"
  shows "\<forall>d \<in> set (fst (processQueries env language lq code rootNode qs st)). fresh d"
  using assms
proof (induction qs arbitrary: st)
  case Nil
  then show ?case by simp
next
  case (Cons q qs)
  obtain defType queryStr where q: "q = (defType, queryStr)" by (cases q)
  show ?case
  proof (cases "queryStr = []")
    case True
    with q Cons show ?thesis by simp
  next
    case False
    show ?thesis
    proof (cases "matches env language queryStr rootNode")
      case None
      with False q Cons show ?thesis by simp
    next
      case (Some ms)
      from Cons.prems
      have "\<forall>d \<in> set (fst (processMatches env language lq defType queryStr code ms st)). fresh d"
        by (rule processMatches_fresh)
      from Cons.IH [OF this] Some False q show ?thesis by simp
    qed
  qed
qed

text \<open>
  C2, as the code has it. Let the file parse to a well-formed tree. A definition \<open>d\<close> of
  the extractor's result whose \<^verbatim>\<open>parentId\<close> is set has as parent a definition \<open>p\<close> of the
  result with that id: on the chain of ancestors of the node at column 0 of \<open>d\<close>'s start
  line, \<open>p\<close> matches the first node whose line span is the span of another definition of
  kind class, namespace, interface, enum, method or function, and \<open>p\<close> is the first
  definition of the result, in list order, that matches this node. The parent's span
  contains \<open>d\<close>'s start line.
\<close>

theorem hierarchy_by_start_line:
  assumes "languageMap env (extname env filePath) = Some language"
    and "parse env language code = Some rootNode"
    and "wellFormed rootNode"
    and "d \<in> set (parseCodeWithTreeSitter env code filePath)"
    and "parentId d = Some pid"
  shows "\<exists>p \<in> set (parseCodeWithTreeSitter env code filePath). \<exists>a.
           def_id p = Some pid
           \<and> firstMatchingAncestor (parseCodeWithTreeSitter env code filePath) d
                (parentChain rootNode (nat (startLine d - 1), 0)) a
           \<and> isParentFor a d p
           \<and> (\<exists>j < length (parseCodeWithTreeSitter env code filePath).
                 parseCodeWithTreeSitter env code filePath ! j = p
                 \<and> (\<forall>k<j. \<not> isParentFor a d (parseCodeWithTreeSitter env code filePath ! k)))
           \<and> startLine p \<le> startLine d \<and> startLine d \<le> endLine p"
proof (cases "queries env (extname env filePath)")
  case None
  with assms(1,2,4,5) show ?thesis
    by (simp add: parseCodeWithTreeSitter_def errorDefinition_def)
next
  case (Some langQueries)
  define ds0 where "ds0 = fst (processQueries env language langQueries code rootNode
                                 langQueries ([], 0))"
  define ds where "ds = linkParents rootNode ds0"
  from Some assms(1,2) have out: "parseCodeWithTreeSitter env code filePath = ds"
    by (simp add: parseCodeWithTreeSitter_def ds_def ds0_def)
  have fresh0: "\<forall>x \<in> set ds0. fresh x"
    unfolding ds0_def by (rule processQueries_fresh) simp
  have keys: "map keyFields ds = map keyFields ds0"
    unfolding ds_def by (rule linkParents_result)
  then have len: "length ds = length ds0" by (metis length_map)
  from assms(4) out obtain i where i: "i < length ds0" "d = ds ! i"
    by (metis in_set_conv_nth len)
  have kd: "keyFields d = keyFields (ds0 ! i)"
    using keys_nth [OF keys i(1)] i(2) by simp
  then have d_id: "def_id d = def_id (ds0 ! i)" and d_line: "startLine d = startLine (ds0 ! i)"
    by (simp_all add: keyFields_def)
  from fresh0 i(1) have f0: "parentId (ds0 ! i) = None" "1 \<le> startLine (ds0 ! i)"
    by (simp_all add: fresh_def)
  have "parentId d = expectedParent rootNode ds0 i"
    unfolding i(2) ds_def using i(1) by (rule linkParents_result)
  with assms(5) f0(1) obtain j where
    j: "findParent ds0 (ds0 ! i) (chainOf rootNode (ds0 ! i)) = Some j"
    and pid: "def_id (ds0 ! j) = Some pid"
    by (auto simp: expectedParent_def split: option.splits)
  from findParent_SomeD [OF j] obtain a where jl: "j < length ds0"
    and fm0: "firstMatchingAncestor ds0 (ds0 ! i) (chainOf rootNode (ds0 ! i)) a"
    and par0: "isParentFor a (ds0 ! i) (ds0 ! j)"
    and first0: "\<forall>k<j. \<not> isParentFor a (ds0 ! i) (ds0 ! k)"
    by blast
  define p where "p = ds ! j"
  have kp: "keyFields p = keyFields (ds0 ! j)"
    unfolding p_def using keys jl by (rule keys_nth)
  have p_in: "p \<in> set ds"
    unfolding p_def using jl len by simp
  have p_id: "def_id p = Some pid"
    using kp pid by (simp add: keyFields_def)
  have chain: "chainOf rootNode (ds0 ! i) = parentChain rootNode (nat (startLine d - 1), 0)"
    by (simp add: chainOf_def d_line)
  have fm: "firstMatchingAncestor ds d (parentChain rootNode (nat (startLine d - 1), 0)) a"
    using fm0 firstMatchingAncestor_cong [OF keys d_id] by (simp add: chain)
  have par: "isParentFor a d p"
    using par0 kp d_id by (simp add: isParentFor_key)
  have "\<not> isParentFor a d (ds ! k)" if "k < j" for k
  proof -
    from that jl have "k < length ds0" by simp
    from keys_nth [OF keys this] first0 that d_id show ?thesis
      by (simp add: isParentFor_key)
  qed
  with jl len have first: "\<exists>j < length ds. ds ! j = p \<and> (\<forall>k<j. \<not> isParentFor a d (ds ! k))"
    unfolding p_def by auto
  from fm have "a \<in> set (parentChain rootNode (nat (startLine d - 1), 0))"
    by (auto simp: firstMatchingAncestor_def)
  with assms(3) have "containsPoint a (nat (startLine d - 1), 0)"
    by (rule chain_contains)
  then have rows: "fst (startPosition a) \<le> nat (startLine d - 1)"
    "nat (startLine d - 1) \<le> fst (endPosition a)"
    by (simp_all add: containsPoint_rows)
  from par have "startLine p = int (fst (startPosition a)) + 1"
    "endLine p = int (fst (endPosition a)) + 1"
    by (simp_all add: isParentFor_def)
  with rows f0(2) d_line have "startLine p \<le> startLine d \<and> startLine d \<le> endLine p"
    by linarith
  with p_in p_id fm par first show ?thesis
    unfolding out by blast
qed

text \<open>
  The claim as stated fails in its first part. In the TypeScript file
  \<^verbatim>\<open>function f() {} function g() {\<close>, \<^verbatim>\<open>}\<close> the two functions start on one line; the
  second, which ends a line later, gets the first as its parent.
\<close>

theorem hierarchy_by_start_line_counterexample:
  "parse tsHost ''typescript'' ''two functions'' = Some two_functions
   \<and> wellFormed two_functions
   \<and> map spanOf (parseCodeWithTreeSitter tsHost ''two functions'' ''x.ts'')
       = [(Some ''def-0'', Some ''def-1'', 1, 1), (Some ''def-1'', Some ''def-0'', 1, 2)]
   \<and> \<not> (\<forall>d \<in> set (parseCodeWithTreeSitter tsHost ''two functions'' ''x.ts'').
          \<forall>p \<in> set (parseCodeWithTreeSitter tsHost ''two functions'' ''x.ts'').
            parentId d = def_id p \<longrightarrow> startLine p \<le> startLine d \<and> endLine d \<le> endLine p)"
  by code_simp

text \<open>
  In the TypeScript file \<^verbatim>\<open>function f() { function g() { function h() {\<close>, \<^verbatim>\<open>} } }\<close> the
  three functions have the same lines. The node of \<open>f\<close> is the first ancestor of the node
  at the start of the line, and \<open>g\<close> and \<open>h\<close> both match it as parents of \<open>f\<close>: the parent
  is \<open>g\<close>, the first of them in the list.
\<close>

theorem hierarchy_by_start_line_witness:
  "languageMap tsHost (extname tsHost ''x.ts'') = Some ''typescript''
   \<and> parse tsHost ''typescript'' ''three functions'' = Some three_functions
   \<and> wellFormed three_functions
   \<and> map spanOf (parseCodeWithTreeSitter tsHost ''three functions'' ''x.ts'')
       = [(Some ''def-0'', Some ''def-1'', 1, 2), (Some ''def-1'', Some ''def-0'', 1, 2),
          (Some ''def-2'', Some ''def-0'', 1, 2)]
   \<and> (\<exists>p \<in> set (parseCodeWithTreeSitter tsHost ''three functions'' ''x.ts''). \<exists>a.
         def_id p = Some ''def-1''
         \<and> isParentFor a (hd (parseCodeWithTreeSitter tsHost ''three functions'' ''x.ts'')) p
         \<and> (\<exists>j < 3. parseCodeWithTreeSitter tsHost ''three functions'' ''x.ts'' ! j = p
               \<and> (\<forall>k<j. \<not> isParentFor a
                             (hd (parseCodeWithTreeSitter tsHost ''three functions'' ''x.ts''))
                             (parseCodeWithTreeSitter tsHost ''three functions'' ''x.ts'' ! k)))
         \<and> startLine p \<le> 1 \<and> 1 \<le> endLine p)"
proof -
  let ?ds = "parseCodeWithTreeSitter tsHost ''three functions'' ''x.ts''"
  have l: "languageMap tsHost (extname tsHost ''x.ts'') = Some ''typescript''"
    by code_simp
  have p: "parse tsHost ''typescript'' ''three functions'' = Some three_functions"
    by code_simp
  have w: "wellFormed three_functions"
    by code_simp
  have spans: "map spanOf ?ds
                 = [(Some ''def-0'', Some ''def-1'', 1, 2), (Some ''def-1'', Some ''def-0'', 1, 2),
                    (Some ''def-2'', Some ''def-0'', 1, 2)]"
    by code_simp
  then have len: "length ?ds = 3"
    by (metis length_map length_Cons list.size(3) numeral_3_eq_3)
  from spans obtain d0 rest where ds: "?ds = d0 # rest"
    and d0: "spanOf d0 = (Some ''def-0'', Some ''def-1'', 1, 2)"
    by (auto simp: map_eq_Cons_conv)
  then have f: "hd ?ds \<in> set ?ds" "parentId (hd ?ds) = Some ''def-1''" "startLine (hd ?ds) = 1"
    by (simp_all add: spanOf_def)
  from hierarchy_by_start_line [OF l p w f(1,2)] f(3) len
  have "\<exists>p \<in> set ?ds. \<exists>a.
         def_id p = Some ''def-1''
         \<and> isParentFor a (hd ?ds) p
         \<and> (\<exists>j < 3. ?ds ! j = p \<and> (\<forall>k<j. \<not> isParentFor a (hd ?ds) (?ds ! k)))
         \<and> startLine p \<le> 1 \<and> 1 \<le> endLine p"
    by auto
  with l p w spans show ?thesis by simp
qed

section \<open>Properties of the renderers\<close>

subsection \<open>The children and the roots that the renderers look up\<close>

lemma find_spec_lookup: "find (\<lambda>x. def_id x = Some childId) defs = spec_lookup defs childId"
  by (induction defs) simp_all

lemma childDefinitions_spec: "childDefinitions defs d = spec_children defs d"
proof -
  have "List.map_filter (\<lambda>childId. find (\<lambda>x. def_id x = Some childId) defs) ids
          = spec_resolve defs ids" for ids
    by (induction ids) (simp_all add: map_filter_simps find_spec_lookup split: option.splits)
  then show ?thesis
    by (simp add: childDefinitions_def spec_children_def storedChildren_def)
qed

lemma topLevelDefs_spec: "topLevelDefs defs = spec_roots defs"
proof -
  have "(\<not> truthy p) = (p = None \<or> p = Some [])" for p
    by (cases p) (simp_all add: truthy_def)
  then show ?thesis by (simp add: topLevelDefs_def spec_roots_def)
qed

lemma spec_lookup_SomeD: "spec_lookup defs childId = Some c \<Longrightarrow> c \<in> set defs"
  by (induction defs) (auto split: if_splits)

lemma spec_children_subset: "c \<in> set (spec_children defs r) \<Longrightarrow> c \<in> set defs"
proof -
  have "c \<in> set (spec_resolve defs ids) \<Longrightarrow> c \<in> set defs" for ids
    by (induction ids) (auto split: option.splits dest: spec_lookup_SomeD)
  then show "c \<in> set (spec_children defs r) \<Longrightarrow> c \<in> set defs"
    by (simp add: spec_children_def)
qed

lemma spec_children_stored:
  "c \<in> set (spec_children defs r) \<Longrightarrow> storedChildren r \<noteq> []"
  by (auto simp: spec_children_def)

lemma spec_roots_subset: "set (spec_roots defs) \<subseteq> set defs"
  by (auto simp: spec_roots_def)

subsection \<open>Each renderer writes the tree under a definition\<close>

lemma those_map_option:
  "those (map (\<lambda>x. map_option g (h x)) xs) = map_option (map g) (those (map h xs))"
  by (induction xs) (auto split: option.splits simp: option.map_comp o_def)

lemma those_cong:
  "(\<And>x. x \<in> set xs \<Longrightarrow> f x = g x) \<Longrightarrow> those (map f xs) = those (map g xs)"
  by (induction xs) (auto split: option.splits)

lemma renderDefinitionXML_tree:
  "renderDefinitionXML fuel lvl defs d = map_option (xmlOfTree lvl) (unfoldTree fuel defs d)"
proof (induction fuel arbitrary: d)
  case 0
  then show ?case by simp
next
  case (Suc fuel)
  have "those (map (renderDefinitionXML fuel lvl defs) (spec_children defs d))
          = map_option (map (xmlOfTree lvl))
              (those (map (unfoldTree fuel defs) (spec_children defs d)))"
    by (simp add: Suc.IH [abs_def] those_map_option)
  then show ?case
    by (cases "those (map (unfoldTree fuel defs) (spec_children defs d))")
      (simp_all add: childDefinitions_spec)
qed

lemma renderDefinitionMarkdown_tree:
  "renderDefinitionMarkdown fuel lvl d defs indent
   = map_option (mdOfTree lvl indent) (unfoldTree fuel defs d)"
proof (induction fuel arbitrary: d indent)
  case 0
  then show ?case by simp
next
  case (Suc fuel)
  have "those (map (\<lambda>child. renderDefinitionMarkdown fuel lvl child defs (indent + 1))
                 (spec_children defs d))
          = map_option (map (mdOfTree lvl (indent + 1)))
              (those (map (unfoldTree fuel defs) (spec_children defs d)))"
    by (simp add: Suc.IH those_map_option)
  then show ?case
    by (cases "those (map (unfoldTree fuel defs) (spec_children defs d))")
      (simp_all add: childDefinitions_spec)
qed

lemma spec_children_Nil: "storedChildren d = [] \<Longrightarrow> spec_children defs d = []"
  by (simp add: spec_children_def)

lemma createDefinitionObject_tree:
  assumes "lvl \<noteq> minimal"
  shows "createDefinitionObject fuel lvl d defs
         = map_option (jsonOfTree lvl) (unfoldTree fuel defs d)"
proof (induction fuel arbitrary: d)
  case 0
  then show ?case by simp
next
  case (Suc fuel)
  show ?case
  proof (cases "storedChildren d = []")
    case True
    then have "children d = None \<or> children d = Some []"
      by (auto simp: storedChildren_def split: option.splits)
    with True show ?thesis
      using assms by (auto simp: spec_children_Nil jsonHead_def Let_def)
  next
    case False
    then obtain cs where cs: "children d = Some cs" "cs \<noteq> []"
      by (auto simp: storedChildren_def split: option.splits)
    have "those (map (\<lambda>child. createDefinitionObject fuel lvl child defs)
                 (spec_children defs d))
          = map_option (map (jsonOfTree lvl))
              (those (map (unfoldTree fuel defs) (spec_children defs d)))"
      by (simp add: Suc.IH those_map_option)
    then show ?thesis
      using assms cs False
      by (cases "those (map (unfoldTree fuel defs) (spec_children defs d))")
        (simp_all add: jsonHead_def Let_def childDefinitions_spec)
  qed
qed

lemma createDefinitionObject_minimal:
  "createDefinitionObject (Suc fuel) minimal d defs = Some (JObject (jsonHead minimal d))"
  by (simp add: jsonHead_def Let_def)

subsection \<open>Whole documents\<close>

lemma renderXML_roots:
  "those (map (renderDefinitionXML fuel lvl defs) roots)
   = map_option (map (xmlOfTree lvl)) (those (map (unfoldTree fuel defs) roots))"
  by (simp add: renderDefinitionXML_tree [abs_def] those_map_option)

lemma renderMarkdown_roots:
  "those (map (\<lambda>d. renderDefinitionMarkdown fuel lvl d defs indent) roots)
   = map_option (map (mdOfTree lvl indent)) (those (map (unfoldTree fuel defs) roots))"
  by (simp add: renderDefinitionMarkdown_tree those_map_option)

lemma renderJSON_roots:
  "lvl \<noteq> minimal \<Longrightarrow>
   those (map (\<lambda>d. createDefinitionObject fuel lvl d defs) roots)
   = map_option (map (jsonOfTree lvl)) (those (map (unfoldTree fuel defs) roots))"
  by (simp add: createDefinitionObject_tree those_map_option)

lemma those_map_Some: "those (map (\<lambda>x. Some (f x)) xs) = Some (map f xs)"
  by (induction xs) simp_all

lemma those_map_pair:
  "those (map (\<lambda>(p, ds). map_option (g p) (h p ds)) xs)
   = map_option (map (\<lambda>(p, y). g p y)) (those (map (\<lambda>(p, ds). map_option (Pair p) (h p ds)) xs))"
proof (induction xs)
  case Nil
  then show ?case by simp
next
  case (Cons x xs)
  obtain p ds where x: "x = (p, ds)" by (cases x)
  show ?case
    using Cons x
    by (cases "h p ds";
        cases "those (map (\<lambda>(p, ds). map_option (Pair p) (h p ds)) xs)") simp_all
qed

lemma formatResultsXML_forests:
  "formatResultsXML fuel results lvl = map_option (xmlOfForests lvl) (spec_forests fuel results)"
proof -
  have "those (map (\<lambda>(filePath, definitions).
                      map_option (XmlElement ''File'' [(''path'', Str filePath)])
                        (those (map (renderDefinitionXML fuel lvl definitions)
                                  (topLevelDefs definitions))))
                 results)
        = those (map (\<lambda>(filePath, definitions).
                        map_option (\<lambda>ts. XmlElement ''File'' [(''path'', Str filePath)]
                                            (map (xmlOfTree lvl) ts))
                          (spec_forest fuel definitions))
                   results)"
    by (rule those_cong)
      (auto simp: renderXML_roots topLevelDefs_spec spec_forest_def option.map_comp o_def)
  also have "\<dots> = map_option
                     (map (\<lambda>(filePath, ts). XmlElement ''File'' [(''path'', Str filePath)]
                                              (map (xmlOfTree lvl) ts)))
                     (spec_forests fuel results)"
    unfolding spec_forests_def
    by (rule those_map_pair
          [of "\<lambda>filePath ts. XmlElement ''File'' [(''path'', Str filePath)]
                               (map (xmlOfTree lvl) ts)"
              "\<lambda>filePath definitions. spec_forest fuel definitions"])
  finally show ?thesis
    by (simp add: formatResultsXML_def xmlOfForests_def [abs_def] option.map_comp o_def)
qed

lemma formatResultsJSON_forests:
  assumes "lvl \<noteq> minimal"
  shows "formatResultsJSON fuel results lvl
         = map_option (jsonOfForests lvl) (spec_forests fuel results)"
proof -
  have "those (map (\<lambda>(filePath, definitions).
                      map_option (\<lambda>objs. (filePath, JArray objs))
                        (those (map (\<lambda>d. createDefinitionObject fuel lvl d definitions)
                                  (topLevelDefs definitions))))
                 results)
        = those (map (\<lambda>(filePath, definitions).
                        map_option (\<lambda>ts. (filePath, JArray (map (jsonOfTree lvl) ts)))
                          (spec_forest fuel definitions))
                   results)"
    by (rule those_cong)
      (auto simp: renderJSON_roots [OF assms] topLevelDefs_spec spec_forest_def
          option.map_comp o_def)
  also have "\<dots> = map_option
                     (map (\<lambda>(filePath, ts). (filePath, JArray (map (jsonOfTree lvl) ts))))
                     (spec_forests fuel results)"
    unfolding spec_forests_def
    by (rule those_map_pair
          [of "\<lambda>filePath ts. (filePath, JArray (map (jsonOfTree lvl) ts))"
              "\<lambda>filePath definitions. spec_forest fuel definitions"])
  finally show ?thesis
    by (simp add: formatResultsJSON_def jsonOfForests_def [abs_def] option.map_comp o_def)
qed

lemma markdownFile_forest:
  assumes "spec_roots defs \<noteq> [] \<or> defs = []"
  shows "markdownFile fuel lvl relativeTo (filePath, defs)
         = map_option (mdOfForest lvl relativeTo filePath) (spec_forest fuel defs)"
proof -
  from assms have "\<not> (topLevelDefs defs = [] \<and> defs \<noteq> [])"
    by (simp add: topLevelDefs_spec)
  then show ?thesis
    by (simp add: markdownFile_def renderMarkdown_roots topLevelDefs_spec spec_forest_def
        mdOfForest_def [abs_def] option.map_comp o_def)
qed

lemma formatResultsJSON_minimal:
  assumes "0 < fuel"
  shows "formatResultsJSON fuel results minimal
         = Some (JObject (map (\<lambda>(p, ds). (p, JArray (map (\<lambda>r. JObject (jsonHead minimal r))
                                                       (spec_roots ds))))
                            results))"
proof -
  from assms obtain f where f: "fuel = Suc f" by (cases fuel) auto
  have "those (map (\<lambda>(filePath, definitions).
                      map_option (\<lambda>objs. (filePath, JArray objs))
                        (those (map (\<lambda>d. createDefinitionObject fuel minimal d definitions)
                                  (topLevelDefs definitions))))
                 results)
        = those (map (\<lambda>e. Some (case e of (p, ds) \<Rightarrow>
                                 (p, JArray (map (\<lambda>r. JObject (jsonHead minimal r))
                                                (spec_roots ds)))))
                   results)"
    by (rule those_cong)
      (auto simp: f jsonHead_def those_map_Some topLevelDefs_spec)
  then show ?thesis by (simp add: formatResultsJSON_def those_map_Some)
qed

subsection \<open>The forest holds every reachable definition\<close>

lemma those_map_SomeD:
  "those (map f xs) = Some ys \<Longrightarrow> x \<in> set xs \<Longrightarrow> \<exists>y \<in> set ys. f x = Some y"
  by (induction xs arbitrary: ys) (auto split: option.splits)

lemma those_map_total:
  "(\<And>x. x \<in> set xs \<Longrightarrow> f x \<noteq> None) \<Longrightarrow> those (map f xs) \<noteq> None"
  by (induction xs) (auto split: option.splits)

lemma unfoldTree_root: "unfoldTree fuel defs r = Some t \<Longrightarrow> \<exists>ts. t = DefTree r ts"
  by (cases fuel) auto

lemma unfoldTree_covers:
  assumes "below defs r d" and "unfoldTree fuel defs r = Some t"
  shows "d \<in> set (treeNodes t)"
  using assms
proof (induction arbitrary: fuel t rule: below.induct)
  case (below_self r)
  then show ?case by (auto dest: unfoldTree_root)
next
  case (below_child c r d)
  from below_child.prems obtain f ts where f: "fuel = Suc f" and t: "t = DefTree r ts"
    and ts: "those (map (unfoldTree f defs) (spec_children defs r)) = Some ts"
    by (cases fuel) auto
  from those_map_SomeD [OF ts below_child.hyps(1)] obtain tc
    where tc: "tc \<in> set ts" "unfoldTree f defs c = Some tc" by blast
  from below_child.IH [OF tc(2)] tc(1) t show ?case by auto
qed

lemma forests_cover:
  assumes fs: "spec_forests fuel results = Some fs"
    and mem: "(filePath, defs) \<in> set results"
    and d: "reachable defs d"
  shows "\<exists>ts t r. (filePath, ts) \<in> set fs \<and> t \<in> set ts
           \<and> unfoldTree fuel defs r = Some t \<and> below defs r d"
proof -
  from d obtain r where r: "r \<in> set (spec_roots defs)" "below defs r d"
    by (auto simp: reachable_def)
  from those_map_SomeD [OF fs [unfolded spec_forests_def] mem] obtain ts
    where ts: "(filePath, ts) \<in> set fs" "spec_forest fuel defs = Some ts"
    by auto
  from those_map_SomeD [OF ts(2) [unfolded spec_forest_def] r(1)] obtain t
    where "t \<in> set ts" "unfoldTree fuel defs r = Some t" by blast
  with ts(1) r(2) show ?thesis by blast
qed

subsection \<open>The nodes of a tree in its three renderings\<close>

lemma xmlListed_parameters [simp]: "concat (map xmlListed (xmlParameters lvl d)) = []"
  by (auto simp: xmlParameters_def split: option.splits)

lemma xmlListed_calls [simp]: "concat (map xmlListed (xmlCalls lvl d)) = []"
  by (auto simp: xmlCalls_def split: option.splits)

lemma xmlListed_tree: "xmlListed (xmlOfTree lvl t) = map (xmlAttrs lvl) (treeNodes t)"
proof (induction t)
  case (DefTree d ts)
  then have "concat (map xmlListed (map (xmlOfTree lvl) ts))
               = map (xmlAttrs lvl) (concat (map treeNodes ts))"
    by (induction ts) simp_all
  then show ?case by simp
qed

lemma xmlListed_forests:
  "xmlListed (xmlOfForests lvl fs)
   = map (xmlAttrs lvl) (concat (map (\<lambda>(p, ts). concat (map treeNodes ts)) fs))"
proof -
  have inFile: "concat (map (xmlListed \<circ> xmlOfTree lvl) ts)
                = map (xmlAttrs lvl) (concat (map treeNodes ts))" for ts
    by (induction ts) (simp_all add: xmlListed_tree)
  have "concat (map (xmlListed \<circ>
                     (\<lambda>(filePath, ts). XmlElement ''File'' [(''path'', Str filePath)]
                                           (map (xmlOfTree lvl) ts))) fs)
          = map (xmlAttrs lvl) (concat (map (\<lambda>(p, ts). concat (map treeNodes ts)) fs))"
    by (induction fs) (auto simp: inFile)
  then show ?thesis by (simp add: xmlOfForests_def)
qed

lemma md_line_occurs:
  assumes "d \<in> set (treeNodes t)"
  shows "\<exists>k pre post. mdOfTree lvl i t = pre @ indentation k @ mdLine lvl d @ newline @ post"
  using assms
proof (induction t arbitrary: i)
  case (DefTree r ts)
  show ?case
  proof (cases "d = r")
    case True
    have "mdOfTree lvl i (DefTree r ts)
            = [] @ indentation i @ mdLine lvl d @ newline
              @ concat (map (mdOfTree lvl (i + 1)) ts)"
      using True by simp
    then show ?thesis by blast
  next
    case False
    with DefTree.prems obtain tc where tc: "tc \<in> set ts" "d \<in> set (treeNodes tc)" by auto
    from DefTree.IH [OF tc] obtain k pre post
      where line: "mdOfTree lvl (i + 1) tc = pre @ indentation k @ mdLine lvl d @ newline @ post"
      by blast
    from tc(1) obtain ts1 ts2 where "ts = ts1 @ tc # ts2"
      by (auto simp: in_set_conv_decomp)
    with line have "mdOfTree lvl i (DefTree r ts)
        = (indentation i @ mdLine lvl r @ newline @ concat (map (mdOfTree lvl (i + 1)) ts1) @ pre)
          @ indentation k @ mdLine lvl d @ newline
          @ (post @ concat (map (mdOfTree lvl (i + 1)) ts2))"
      by simp
    then show ?thesis by blast
  qed
qed

lemma jsonObjects_head:
  "\<exists>rest. jsonObjects (jsonOfTree lvl (DefTree r ts))
            = (jsonHead lvl r @ rest)
              # concat (map (\<lambda>kv. jsonObjects (snd kv)) (jsonHead lvl r @ rest))"
  by (cases "storedChildren r = []") auto

lemma json_covers:
  assumes "below defs r d" and "unfoldTree fuel defs r = Some t"
  shows "\<exists>kvs \<in> set (jsonObjects (jsonOfTree lvl t)).
           take (length (jsonHead lvl d)) kvs = jsonHead lvl d"
  using assms
proof (induction arbitrary: fuel t rule: below.induct)
  case (below_self r)
  then obtain ts where "t = DefTree r ts" by (auto dest: unfoldTree_root)
  with jsonObjects_head [of lvl r ts] show ?case by auto
next
  case (below_child c r d)
  from below_child.prems obtain f ts where f: "fuel = Suc f" and t: "t = DefTree r ts"
    and ts: "those (map (unfoldTree f defs) (spec_children defs r)) = Some ts"
    by (cases fuel) auto
  from those_map_SomeD [OF ts below_child.hyps(1)] obtain tc
    where tc: "tc \<in> set ts" "unfoldTree f defs c = Some tc" by blast
  from below_child.IH [OF tc(2)] obtain kvs
    where kvs: "kvs \<in> set (jsonObjects (jsonOfTree lvl tc))"
      "take (length (jsonHead lvl d)) kvs = jsonHead lvl d" by blast
  from spec_children_stored [OF below_child.hyps(1)]
  have cs: "storedChildren r \<noteq> []" .
  from kvs(1) tc(1) cs have "kvs \<in> set (jsonObjects (jsonOfTree lvl (DefTree r ts)))"
    by auto
  with kvs(2) t show ?case by blast
qed

lemma concat_mem_split:
  assumes "x \<in> set xs"
  shows "\<exists>a b. concat xs = a @ x @ b"
proof -
  from assms obtain ys zs where "xs = ys @ x # zs" by (auto simp: in_set_conv_decomp)
  then have "concat xs = concat ys @ x @ concat zs" by simp
  then show ?thesis by blast
qed

subsection \<open>A reachable definition in the three documents\<close>

lemma xml_covers:
  assumes "spec_forests fuel results = Some fs"
    and "(filePath, defs) \<in> set results"
    and "reachable defs d"
  shows "xmlAttrs lvl d \<in> set (xmlListed (xmlOfForests lvl fs))"
proof -
  from forests_cover [OF assms] obtain ts t r
    where t: "(filePath, ts) \<in> set fs" "t \<in> set ts" "unfoldTree fuel defs r = Some t"
      "below defs r d" by blast
  from unfoldTree_covers [OF t(4,3)] t(2) have "d \<in> set (concat (map treeNodes ts))"
    by auto
  with t(1) have "d \<in> set (concat (map (\<lambda>(p, ts). concat (map treeNodes ts)) fs))"
    by force
  then show ?thesis
    unfolding xmlListed_forests by simp
qed

lemma json_document_covers:
  assumes "spec_forests fuel results = Some fs"
    and "(filePath, defs) \<in> set results"
    and "reachable defs d"
  shows "\<exists>kvs \<in> set (jsonObjects (jsonOfForests lvl fs)).
           take (length (jsonHead lvl d)) kvs = jsonHead lvl d"
proof -
  from forests_cover [OF assms] obtain ts t r
    where t: "(filePath, ts) \<in> set fs" "t \<in> set ts" "unfoldTree fuel defs r = Some t"
      "below defs r d" by blast
  from json_covers [OF t(4,3)] obtain kvs
    where kvs: "kvs \<in> set (jsonObjects (jsonOfTree lvl t))"
      "take (length (jsonHead lvl d)) kvs = jsonHead lvl d" by blast
  from kvs(1) t(2) have "kvs \<in> set (jsonObjects (JArray (map (jsonOfTree lvl) ts)))"
    by auto
  with t(1) have "kvs \<in> set (jsonObjects (jsonOfForests lvl fs))"
    unfolding jsonOfForests_def by force
  with kvs(2) show ?thesis by blast
qed

lemma markdownFile_covers:
  assumes sec: "markdownFile fuel lvl relativeTo (filePath, defs) = Some sec"
    and d: "reachable defs d"
  shows "\<exists>k pre post. sec = pre @ indentation k @ mdLine lvl d @ newline @ post"
proof -
  from d obtain r where r: "r \<in> set (spec_roots defs)" "below defs r d"
    by (auto simp: reachable_def)
  then have roots: "spec_roots defs \<noteq> [] \<or> defs = []" by auto
  from sec [unfolded markdownFile_forest [OF roots]] obtain ts
    where ts: "spec_forest fuel defs = Some ts" and sec': "sec = mdOfForest lvl relativeTo filePath ts"
    by auto
  from those_map_SomeD [OF ts [unfolded spec_forest_def] r(1)] obtain t
    where t: "t \<in> set ts" "unfoldTree fuel defs r = Some t" by blast
  from md_line_occurs [OF unfoldTree_covers [OF r(2) t(2)], of lvl 0] obtain k pre post
    where line: "mdOfTree lvl 0 t = pre @ indentation k @ mdLine lvl d @ newline @ post"
    by blast
  from t(1) have "mdOfTree lvl 0 t \<in> set (map (mdOfTree lvl 0) ts)" by simp
  from concat_mem_split [OF this] obtain a b
    where "concat (map (mdOfTree lvl 0) ts) = a @ mdOfTree lvl 0 t @ b" by blast
  with line sec' have "sec = (''## File: '' @ inlineCode (relativeTo filePath) @ newline @ newline
                              @ a @ pre)
                             @ indentation k @ mdLine lvl d @ newline @ (post @ b @ newline)"
    by (simp add: mdOfForest_def)
  then show ?thesis by blast
qed

lemma formatResultsMarkdown_covers:
  assumes md: "formatResultsMarkdown fuel results lvl directoryPath relativeTo = Some md"
    and mem: "(filePath, defs) \<in> set results"
    and d: "reachable defs d"
  shows "\<exists>k pre post. md = pre @ indentation k @ mdLine lvl d @ newline @ post"
proof -
  from md obtain sections tail where sections:
    "those (map (markdownFile fuel lvl relativeTo) (sort_key fst results)) = Some sections"
    and md': "md = ''# Code Scan Results for '' @ directoryPath @ newline @ newline
                   @ concat sections @ tail"
    by (auto simp: formatResultsMarkdown_def)
  from mem have "(filePath, defs) \<in> set (sort_key fst results)" by simp
  from those_map_SomeD [OF sections this] obtain sec
    where sec: "sec \<in> set sections" "markdownFile fuel lvl relativeTo (filePath, defs) = Some sec"
    by blast
  from markdownFile_covers [OF sec(2) d] obtain k pre post
    where line: "sec = pre @ indentation k @ mdLine lvl d @ newline @ post" by blast
  from concat_mem_split [OF sec(1)] obtain a b where "concat sections = a @ sec @ b" by blast
  with line md' have "md = (''# Code Scan Results for '' @ directoryPath @ newline @ newline
                            @ a @ pre)
                           @ indentation k @ mdLine lvl d @ newline @ (post @ b @ tail)"
    by simp
  then show ?thesis by blast
qed

subsection \<open>The renderers return where no cycle is reached\<close>

lemma below_step:
  "below defs r x \<Longrightarrow> c \<in> set (spec_children defs x) \<Longrightarrow> below defs r c"
  by (induction rule: below.induct) (auto intro: below.intros)

lemma unfoldTree_total:
  assumes "acyclicFrom rank fuel defs starts" and "r \<in> set starts"
  shows "\<exists>t. unfoldTree fuel defs r = Some t"
proof -
  have "below defs r x \<Longrightarrow> rank x < n \<Longrightarrow> unfoldTree n defs x \<noteq> None" for n x
  proof (induction n arbitrary: x)
    case 0
    then show ?case by simp
  next
    case (Suc n)
    have "those (map (unfoldTree n defs) (spec_children defs x)) \<noteq> None"
    proof (rule those_map_total)
      fix c assume c: "c \<in> set (spec_children defs x)"
      with assms Suc.prems(1) have "rank c < rank x"
        by (auto simp: acyclicFrom_def)
      with Suc.prems(2) have "rank c < n" by simp
      moreover from Suc.prems(1) c have "below defs r c" by (rule below_step)
      ultimately show "unfoldTree n defs c \<noteq> None" by (rule Suc.IH [rotated])
    qed
    then show ?case by auto
  qed
  moreover from assms have "rank r < fuel"
    by (auto simp: acyclicFrom_def intro: below.intros)
  ultimately have "unfoldTree fuel defs r \<noteq> None"
    by (blast intro: below.intros)
  then show ?thesis by auto
qed

lemma forest_total:
  assumes "acyclicFrom rank fuel defs starts"
  shows "\<exists>ts. those (map (unfoldTree fuel defs) starts) = Some ts"
proof -
  have "those (map (unfoldTree fuel defs) starts) \<noteq> None"
  proof (rule those_map_total)
    fix r assume "r \<in> set starts"
    from unfoldTree_total [OF assms this] show "unfoldTree fuel defs r \<noteq> None" by auto
  qed
  then show ?thesis by auto
qed

lemma spec_forests_total:
  assumes "\<forall>(p, ds) \<in> set results. acyclicFrom rank fuel ds (spec_roots ds)"
  shows "\<exists>fs. spec_forests fuel results = Some fs"
proof -
  have "those (map (\<lambda>(filePath, definitions).
                      map_option (Pair filePath) (spec_forest fuel definitions))
                 results) \<noteq> None"
  proof (rule those_map_total)
    fix e assume e: "e \<in> set results"
    obtain p ds where pds: "e = (p, ds)" by (cases e)
    with e assms have "acyclicFrom rank fuel ds (spec_roots ds)" by auto
    from forest_total [OF this] pds
    show "(case e of (filePath, definitions) \<Rightarrow>
             map_option (Pair filePath) (spec_forest fuel definitions)) \<noteq> None"
      by (auto simp: spec_forest_def)
  qed
  then show ?thesis by (auto simp: spec_forests_def)
qed

lemma markdownFile_total:
  assumes "acyclicFrom rank fuel defs (mdStarts defs)"
  shows "\<exists>sec. markdownFile fuel lvl relativeTo (filePath, defs) = Some sec"
proof (cases "spec_roots defs = [] \<and> defs \<noteq> []")
  case True
  with assms have "acyclicFrom rank fuel defs defs"
    by (simp add: mdStarts_def)
  from forest_total [OF this] True show ?thesis
    by (auto simp: markdownFile_def renderMarkdown_roots topLevelDefs_spec)
next
  case False
  then have roots: "spec_roots defs \<noteq> [] \<or> defs = []" by auto
  have "acyclicFrom rank fuel defs (spec_roots defs)"
  proof (cases "spec_roots defs = []")
    case True
    then show ?thesis by (simp add: acyclicFrom_def)
  next
    case False
    with assms show ?thesis by (simp add: mdStarts_def)
  qed
  from forest_total [OF this] show ?thesis
    by (auto simp: markdownFile_forest [OF roots] spec_forest_def)
qed

lemma formatResultsMarkdown_total:
  assumes "\<forall>(p, ds) \<in> set results. acyclicFrom rank fuel ds (mdStarts ds)"
  shows "\<exists>md. formatResultsMarkdown fuel results lvl directoryPath relativeTo = Some md"
proof -
  have "those (map (markdownFile fuel lvl relativeTo) (sort_key fst results)) \<noteq> None"
  proof (rule those_map_total)
    fix e assume e: "e \<in> set (sort_key fst results)"
    obtain p ds where pds: "e = (p, ds)" by (cases e)
    with e assms have "acyclicFrom rank fuel ds (mdStarts ds)" by auto
    from markdownFile_total [OF this] pds
    show "markdownFile fuel lvl relativeTo e \<noteq> None" by auto
  qed
  then show ?thesis by (auto simp: formatResultsMarkdown_def)
qed

text \<open>
  A list of definitions that holds the starts and, with a definition, its children, and
  on which the rank falls and stays under the fuel, shows that no cycle is reached.
\<close>

lemma acyclicFromI:
  assumes "set starts \<subseteq> set S"
    and "\<forall>x \<in> set S. rank x < fuel
           \<and> (\<forall>c \<in> set (spec_children defs x). c \<in> set S \<and> rank c < rank x)"
  shows "acyclicFrom rank fuel defs starts"
proof -
  have closed: "below defs r x \<Longrightarrow> r \<in> set S \<Longrightarrow> x \<in> set S" for r x
  proof (induction rule: below.induct)
    case (below_self r)
    then show ?case .
  next
    case (below_child c r d)
    from assms(2) below_child.prems below_child.hyps(1) have "c \<in> set S" by blast
    then show ?case by (rule below_child.IH)
  qed
  show ?thesis
    unfolding acyclicFrom_def
  proof (intro ballI allI impI)
    fix r x assume "r \<in> set starts" "below defs r x"
    with assms(1) closed have "x \<in> set S" by blast
    with assms(2)
    show "rank x < fuel \<and> (\<forall>c\<in>set (spec_children defs x). rank c < rank x)" by blast
  qed
qed

text \<open>
  C9. Each renderer writes the forest of every file: the trees under the definitions
  without \<^verbatim>\<open>parentId\<close>, in the order of the file's list, and under every definition the
  trees of the definitions that its children ids resolve to, in stored order. For XML
  this holds at every detail level, for JSON at \<^verbatim>\<open>standard\<close> and \<^verbatim>\<open>detailed\<close>, and for the
  Markdown section of a file that has a root or no definition at all. The renderer
  returns exactly when the forest is finite within the fuel. At \<^verbatim>\<open>minimal\<close> the JSON
  renderer returns before it looks at the children: its document is the list of the roots
  of each file, with kind and name. Where no cycle is reached from the roots (a rank falls
  along the children and stays under the fuel), XML and JSON return a document, and it
  holds the element, respectively at \<^verbatim>\<open>standard\<close> and \<^verbatim>\<open>detailed\<close> the object, of every
  reachable definition; Markdown returns and holds its line when, in addition, no cycle is
  reached in a file without a root, where it lists every definition.
\<close>

theorem renderers_reach_descendants:
  "formatResultsXML fuel results lvl = map_option (xmlOfForests lvl) (spec_forests fuel results)
   \<and> (lvl \<noteq> minimal \<longrightarrow>
        formatResultsJSON fuel results lvl
          = map_option (jsonOfForests lvl) (spec_forests fuel results))
   \<and> (spec_roots defs \<noteq> [] \<or> defs = [] \<longrightarrow>
        markdownFile fuel lvl relativeTo (filePath, defs)
          = map_option (mdOfForest lvl relativeTo filePath) (spec_forest fuel defs))
   \<and> (0 < fuel \<longrightarrow>
        formatResultsJSON fuel results minimal
          = Some (JObject (map (\<lambda>(p, ds). (p, JArray (map (\<lambda>r. JObject (jsonHead minimal r))
                                                        (spec_roots ds))))
                             results)))
   \<and> ((filePath, defs) \<in> set results \<and> reachable defs d
        \<and> (\<forall>(p, ds) \<in> set results. acyclicFrom rank fuel ds (spec_roots ds))
        \<longrightarrow> (\<exists>doc. formatResultsXML fuel results lvl = Some doc
                   \<and> xmlAttrs lvl d \<in> set (xmlListed doc))
            \<and> (\<exists>doc. formatResultsJSON fuel results lvl = Some doc
                   \<and> (lvl \<noteq> minimal \<longrightarrow>
                        (\<exists>kvs \<in> set (jsonObjects doc).
                           take (length (jsonHead lvl d)) kvs = jsonHead lvl d))))
   \<and> ((filePath, defs) \<in> set results \<and> reachable defs d
        \<and> (\<forall>(p, ds) \<in> set results. acyclicFrom rank fuel ds (mdStarts ds))
        \<longrightarrow> (\<exists>md k pre post.
               formatResultsMarkdown fuel results lvl directoryPath relativeTo = Some md
               \<and> md = pre @ indentation k @ mdLine lvl d @ newline @ post))"
proof (intro conjI impI)
  show "formatResultsXML fuel results lvl
          = map_option (xmlOfForests lvl) (spec_forests fuel results)"
    by (rule formatResultsXML_forests)
next
  assume "lvl \<noteq> minimal"
  then show "formatResultsJSON fuel results lvl
               = map_option (jsonOfForests lvl) (spec_forests fuel results)"
    by (rule formatResultsJSON_forests)
next
  assume "spec_roots defs \<noteq> [] \<or> defs = []"
  then show "markdownFile fuel lvl relativeTo (filePath, defs)
               = map_option (mdOfForest lvl relativeTo filePath) (spec_forest fuel defs)"
    by (rule markdownFile_forest)
next
  assume "0 < fuel"
  then show "formatResultsJSON fuel results minimal
          = Some (JObject (map (\<lambda>(p, ds). (p, JArray (map (\<lambda>r. JObject (jsonHead minimal r))
                                                        (spec_roots ds))))
                             results))"
    by (rule formatResultsJSON_minimal)
next
  assume h: "(filePath, defs) \<in> set results \<and> reachable defs d
             \<and> (\<forall>(p, ds) \<in> set results. acyclicFrom rank fuel ds (spec_roots ds))"
  then obtain fs where fs: "spec_forests fuel results = Some fs"
    using spec_forests_total [of results rank fuel] by blast
  from h have mem: "(filePath, defs) \<in> set results" and d: "reachable defs d"
    by simp_all
  from xml_covers [OF fs mem d, of lvl]
  show "\<exists>doc. formatResultsXML fuel results lvl = Some doc
              \<and> xmlAttrs lvl d \<in> set (xmlListed doc)"
    by (simp add: formatResultsXML_forests fs)
next
  assume h: "(filePath, defs) \<in> set results \<and> reachable defs d
             \<and> (\<forall>(p, ds) \<in> set results. acyclicFrom rank fuel ds (spec_roots ds))"
  then obtain fs where fs: "spec_forests fuel results = Some fs"
    using spec_forests_total [of results rank fuel] by blast
  from h have mem: "(filePath, defs) \<in> set results" and d: "reachable defs d"
    and ac: "acyclicFrom rank fuel defs (spec_roots defs)"
    by auto
  show "\<exists>doc. formatResultsJSON fuel results lvl = Some doc
              \<and> (lvl \<noteq> minimal \<longrightarrow>
                   (\<exists>kvs \<in> set (jsonObjects doc).
                      take (length (jsonHead lvl d)) kvs = jsonHead lvl d))"
  proof (cases "lvl = minimal")
    case True
    from d obtain r where "r \<in> set (spec_roots defs)" "below defs r d"
      by (auto simp: reachable_def)
    with ac have "rank d < fuel" by (auto simp: acyclicFrom_def)
    then have "0 < fuel" by simp
    from formatResultsJSON_minimal [OF this, of results] True show ?thesis by simp
  next
    case False
    from json_document_covers [OF fs mem d, of lvl] False show ?thesis
      by (simp add: formatResultsJSON_forests fs)
  qed
next
  assume h: "(filePath, defs) \<in> set results \<and> reachable defs d
             \<and> (\<forall>(p, ds) \<in> set results. acyclicFrom rank fuel ds (mdStarts ds))"
  then obtain md
    where md: "formatResultsMarkdown fuel results lvl directoryPath relativeTo = Some md"
    using formatResultsMarkdown_total [of results rank fuel lvl directoryPath relativeTo]
    by blast
  from h have mem: "(filePath, defs) \<in> set results" and d: "reachable defs d"
    by simp_all
  from formatResultsMarkdown_covers [OF md mem d] md
  show "\<exists>md k pre post.
          formatResultsMarkdown fuel results lvl directoryPath relativeTo = Some md
          \<and> md = pre @ indentation k @ mdLine lvl d @ newline @ post"
    by blast
qed

text \<open>
  The scan of \<^verbatim>\<open>scopes.ts\<close> and \<^verbatim>\<open>three functions.ts\<close>. In all three formats \<open>helper\<close> comes
  before \<open>Local\<close> under \<open>outer\<close>, as the ids are stored, although \<open>Local\<close> stands before it
  in the file and in the list. The second file has no root: XML and JSON write it empty
  and never reach its cycle.
\<close>

theorem renderers_reach_descendants_witness:
  "filterResults tsHost literalRegExp ''dir''
     (parseFiles tsHost [''scopes.ts'', ''three functions.ts'']) noFilter = twoFiles
   \<and> standard \<noteq> minimal \<and> (0::nat) < 4
   \<and> spec_roots scopesFile \<noteq> []
   \<and> (''scopes.ts'', scopesFile) \<in> set twoFiles
   \<and> (''scopes.ts'', scopesFile) \<in> set scopesMap
   \<and> reachable scopesFile helperDef
   \<and> list_all (\<lambda>(p, ds). acyclicFrom lineSpan 4 ds (spec_roots ds)) twoFiles
   \<and> list_all (\<lambda>(p, ds). acyclicFrom lineSpan 4 ds (mdStarts ds)) scopesMap
   \<and> formatResultsXML 4 twoFiles standard
       = Some (XmlElement ''CodeScanResults'' []
           [XmlElement ''File'' [(''path'', Str ''scopes.ts'')]
              [XmlElement ''Definition''
                 [(''type'', Str ''function''), (''name'', Str ''outer''),
                  (''startLine'', Num 1), (''endLine'', Num 4)]
                 [XmlElement ''Definition''
                    [(''type'', Str ''function''), (''name'', Str ''helper''),
                     (''startLine'', Num 3), (''endLine'', Num 3)] [],
                  XmlElement ''Definition''
                    [(''type'', Str ''class''), (''name'', Str ''Local''),
                     (''startLine'', Num 2), (''endLine'', Num 2)] []]],
            XmlElement ''File'' [(''path'', Str ''three functions.ts'')] []])
   \<and> formatResultsJSON 4 twoFiles standard
       = Some (JObject
           [(''scopes.ts'',
             JArray
               [JObject
                  [(''type'', JScalar (Str ''function'')), (''name'', JScalar (Str ''outer'')),
                   (''startLine'', JScalar (Num 1)), (''endLine'', JScalar (Num 4)),
                   (''children'',
                    JArray
                      [JObject
                         [(''type'', JScalar (Str ''function'')),
                          (''name'', JScalar (Str ''helper'')),
                          (''startLine'', JScalar (Num 3)), (''endLine'', JScalar (Num 3))],
                       JObject
                         [(''type'', JScalar (Str ''class'')),
                          (''name'', JScalar (Str ''Local'')),
                          (''startLine'', JScalar (Num 2)), (''endLine'', JScalar (Num 2))]])]]),
            (''three functions.ts'', JArray [])])
   \<and> formatResultsJSON 4 twoFiles minimal
       = Some (JObject
           [(''scopes.ts'',
             JArray [JObject [(''type'', JScalar (Str ''function'')),
                              (''name'', JScalar (Str ''outer''))]]),
            (''three functions.ts'', JArray [])])
   \<and> markdownFile 4 standard (\<lambda>p. p) (''scopes.ts'', scopesFile)
       = Some (concat
           [''## File: '', inlineCode ''scopes.ts'', newline, newline,
            ''- **FUNCTION**: '', inlineCode ''outer'', '' (Lines: 1-4)'', newline,
            ''  - **FUNCTION**: '', inlineCode ''helper'', '' (Lines: 3-3)'', newline,
            ''  - **CLASS**: '', inlineCode ''Local'', '' (Lines: 2-2)'', newline,
            newline])
   \<and> (\<exists>doc. formatResultsXML 4 twoFiles standard = Some doc
          \<and> xmlAttrs standard helperDef \<in> set (xmlListed doc))
   \<and> (\<exists>doc. formatResultsJSON 4 twoFiles standard = Some doc
          \<and> (\<exists>kvs \<in> set (jsonObjects doc).
                 take (length (jsonHead standard helperDef)) kvs = jsonHead standard helperDef))
   \<and> (\<exists>md k pre post.
          formatResultsMarkdown 4 scopesMap standard ''dir'' (\<lambda>p. p) = Some md
          \<and> md = pre @ indentation k @ mdLine standard helperDef @ newline @ post)"
proof -
  have scan: "filterResults tsHost literalRegExp ''dir''
                (parseFiles tsHost [''scopes.ts'', ''three functions.ts'']) noFilter = twoFiles"
    by code_simp
  have lvl: "standard \<noteq> minimal" and fuel: "(0::nat) < 4"
    by simp_all
  have roots: "spec_roots scopesFile \<noteq> []"
    by code_simp
  have mem: "(''scopes.ts'', scopesFile) \<in> set twoFiles"
    by (simp add: twoFiles_def)
  have mem1: "(''scopes.ts'', scopesFile) \<in> set scopesMap"
    by (simp add: scopesMap_def)
  have "outerDef \<in> set (spec_roots scopesFile)"
    "helperDef \<in> set (spec_children scopesFile outerDef)"
    by code_simp+
  then have reach: "reachable scopesFile helperDef"
    unfolding reachable_def by (blast intro: below.intros)
  have "list_all (\<lambda>x. lineSpan x < 4
                   \<and> list_all (\<lambda>c. c \<in> set scopesFile \<and> lineSpan c < lineSpan x)
                       (spec_children scopesFile x)) scopesFile"
    by code_simp
  then have ranked: "\<forall>x \<in> set scopesFile. lineSpan x < 4
      \<and> (\<forall>c \<in> set (spec_children scopesFile x). c \<in> set scopesFile \<and> lineSpan c < lineSpan x)"
    by (simp add: list_all_iff)
  have ac: "acyclicFrom lineSpan 4 scopesFile (spec_roots scopesFile)"
    using spec_roots_subset ranked by (rule acyclicFromI)
  have "spec_roots cyclicFile = []"
    by code_simp
  then have "acyclicFrom lineSpan 4 cyclicFile (spec_roots cyclicFile)"
    by (simp add: acyclicFrom_def)
  with ac have acAll: "\<forall>(p, ds) \<in> set twoFiles. acyclicFrom lineSpan 4 ds (spec_roots ds)"
    by (simp add: twoFiles_def)
  from roots have "mdStarts scopesFile = spec_roots scopesFile"
    by (simp add: mdStarts_def)
  with ac have acMd: "\<forall>(p, ds) \<in> set scopesMap. acyclicFrom lineSpan 4 ds (mdStarts ds)"
    by (simp add: scopesMap_def)
  have xmlDoc: "map_option (xmlOfForests standard) (spec_forests 4 twoFiles)
       = Some (XmlElement ''CodeScanResults'' []
           [XmlElement ''File'' [(''path'', Str ''scopes.ts'')]
              [XmlElement ''Definition''
                 [(''type'', Str ''function''), (''name'', Str ''outer''),
                  (''startLine'', Num 1), (''endLine'', Num 4)]
                 [XmlElement ''Definition''
                    [(''type'', Str ''function''), (''name'', Str ''helper''),
                     (''startLine'', Num 3), (''endLine'', Num 3)] [],
                  XmlElement ''Definition''
                    [(''type'', Str ''class''), (''name'', Str ''Local''),
                     (''startLine'', Num 2), (''endLine'', Num 2)] []]],
            XmlElement ''File'' [(''path'', Str ''three functions.ts'')] []])"
    by code_simp
  have jsonDoc: "map_option (jsonOfForests standard) (spec_forests 4 twoFiles)
       = Some (JObject
           [(''scopes.ts'',
             JArray
               [JObject
                  [(''type'', JScalar (Str ''function'')), (''name'', JScalar (Str ''outer'')),
                   (''startLine'', JScalar (Num 1)), (''endLine'', JScalar (Num 4)),
                   (''children'',
                    JArray
                      [JObject
                         [(''type'', JScalar (Str ''function'')),
                          (''name'', JScalar (Str ''helper'')),
                          (''startLine'', JScalar (Num 3)), (''endLine'', JScalar (Num 3))],
                       JObject
                         [(''type'', JScalar (Str ''class'')),
                          (''name'', JScalar (Str ''Local'')),
                          (''startLine'', JScalar (Num 2)), (''endLine'', JScalar (Num 2))]])]]),
            (''three functions.ts'', JArray [])])"
    by code_simp
  have jsonMin: "map (\<lambda>(p, ds). (p, JArray (map (\<lambda>r. JObject (jsonHead minimal r))
                                               (spec_roots ds)))) twoFiles
       = [(''scopes.ts'',
             JArray [JObject [(''type'', JScalar (Str ''function'')),
                              (''name'', JScalar (Str ''outer''))]]),
            (''three functions.ts'', JArray [])]"
    by code_simp
  have mdDoc: "map_option (mdOfForest standard (\<lambda>p. p) ''scopes.ts'') (spec_forest 4 scopesFile)
       = Some (concat
           [''## File: '', inlineCode ''scopes.ts'', newline, newline,
            ''- **FUNCTION**: '', inlineCode ''outer'', '' (Lines: 1-4)'', newline,
            ''  - **FUNCTION**: '', inlineCode ''helper'', '' (Lines: 3-3)'', newline,
            ''  - **CLASS**: '', inlineCode ''Local'', '' (Lines: 2-2)'', newline,
            newline])"
    by code_simp
  have roots1: "spec_roots scopesFile \<noteq> [] \<or> scopesFile = []"
    using roots by simp
  note two = renderers_reach_descendants
    [of 4 twoFiles standard scopesFile "\<lambda>p. p" "''scopes.ts''" helperDef lineSpan "''dir''"]
  note single = renderers_reach_descendants
    [of 4 scopesMap standard scopesFile "\<lambda>p. p" "''scopes.ts''" helperDef lineSpan "''dir''"]
  note A = two [THEN conjunct1]
  note B = two [THEN conjunct2, THEN conjunct1, rule_format, OF lvl]
  note D = two [THEN conjunct2, THEN conjunct2, THEN conjunct2, THEN conjunct1, rule_format,
                OF fuel]
  note C = single [THEN conjunct2, THEN conjunct2, THEN conjunct1, rule_format, OF roots1]
  note c1 = trans [OF A xmlDoc]
  note c2 = trans [OF B jsonDoc]
  note c3 = D [unfolded jsonMin]
  note c4 = trans [OF C mdDoc]
  from two mem reach acAll lvl
  have c5: "\<exists>doc. formatResultsXML 4 twoFiles standard = Some doc
              \<and> xmlAttrs standard helperDef \<in> set (xmlListed doc)"
    and c6: "\<exists>doc. formatResultsJSON 4 twoFiles standard = Some doc
              \<and> (\<exists>kvs \<in> set (jsonObjects doc).
                     take (length (jsonHead standard helperDef)) kvs
                       = jsonHead standard helperDef)"
    by blast+
  from single mem1 reach acMd
  have c7: "\<exists>md k pre post.
          formatResultsMarkdown 4 scopesMap standard ''dir'' (\<lambda>p. p) = Some md
          \<and> md = pre @ indentation k @ mdLine standard helperDef @ newline @ post"
    by blast
  from acAll have h1: "list_all (\<lambda>(p, ds). acyclicFrom lineSpan 4 ds (spec_roots ds)) twoFiles"
    by (simp add: list_all_iff)
  from acMd have h2: "list_all (\<lambda>(p, ds). acyclicFrom lineSpan 4 ds (mdStarts ds)) scopesMap"
    by (simp add: list_all_iff)
  from scan lvl fuel roots mem mem1 reach h1 h2 c1 c2 c3 c4 c5 c6 c7
  show ?thesis
    by (intro conjI)
qed

text \<open>
  The claim as stated, for every level and every format, fails for JSON at \<^verbatim>\<open>minimal\<close>:
  the scan of a TypeScript file with a function \<open>inner\<close> nested in a function \<open>outer\<close>
  lists both in XML and only \<open>outer\<close> in JSON.
\<close>

theorem renderers_reach_descendants_counterexample:
  "map spanOf (parseCodeWithTreeSitter tsHost ''nested functions'' ''nested functions.ts'')
     = [(Some ''def-0'', None, 1, 3), (Some ''def-1'', Some ''def-0'', 2, 2)]
   \<and> performScan tsHost literalRegExp 5 ''dir'' [''nested functions.ts'']
        xml minimal noFilter
       = Some (XmlOutput
           (XmlElement ''CodeScanResults'' []
              [XmlElement ''File'' [(''path'', Str ''nested functions.ts'')]
                 [XmlElement ''Definition''
                    [(''type'', Str ''function''), (''name'', Str ''outer'')]
                    [XmlElement ''Definition''
                       [(''type'', Str ''function''), (''name'', Str ''inner'')] []]]]))
   \<and> performScan tsHost literalRegExp 5 ''dir'' [''nested functions.ts'']
        json minimal noFilter
       = Some (JsonOutput
           (JObject [(''nested functions.ts'',
                      JArray [JObject [(''type'', JScalar (Str ''function'')),
                                       (''name'', JScalar (Str ''outer''))]])]))"
  by code_simp

end
